theory Spec2Isabelle
  imports Main
begin

section \<open>JavaScript values\<close>

text \<open>
  Stage payloads, questions, briefings and decoded events are untyped JavaScript values.
  A number is kept as a decimal \<open>mantissa * 10 ^ exponent\<close>; the code never computes with
  a payload number, it only tests values for truthiness.
\<close>

datatype jsval =
    JUndefined
  | JNull
  | JBool bool
  | JNum int int
  | JStr string
  | JArr "jsval list"
  | JObj "(string \<times> jsval) list"

datatype error =
    TypeError
  | NetworkError
  | Failure string

text \<open>JavaScript truthiness, as tested by \<^verbatim>\<open>!x\<close>, \<^verbatim>\<open>x || y\<close> and \<^verbatim>\<open>if (x)\<close>.\<close>

fun truthy :: "jsval \<Rightarrow> bool" where
  "truthy JUndefined = False"
| "truthy JNull = False"
| "truthy (JBool b) = b"
| "truthy (JNum m e) = (m \<noteq> 0)"
| "truthy (JStr s) = (s \<noteq> [])"
| "truthy (JArr xs) = True"
| "truthy (JObj kvs) = True"

text \<open>
  Property read \<^verbatim>\<open>v.k\<close>: a \<^verbatim>\<open>TypeError\<close> on \<^verbatim>\<open>null\<close> and \<^verbatim>\<open>undefined\<close>,
  \<^verbatim>\<open>undefined\<close> for a key the value does not have. Only the keys \<^verbatim>\<open>type\<close>,
  \<^verbatim>\<open>data\<close>, \<^verbatim>\<open>metadata\<close>, \<^verbatim>\<open>message\<close> and \<^verbatim>\<open>title\<close> are ever read, and no primitive
  or array has them.
\<close>

fun js_get :: "jsval \<Rightarrow> string \<Rightarrow> error + jsval" where
  "js_get JUndefined k = Inl TypeError"
| "js_get JNull k = Inl TypeError"
| "js_get (JObj kvs) k = Inr (case map_of kvs k of None \<Rightarrow> JUndefined | Some v \<Rightarrow> v)"
| "js_get v k = Inr JUndefined"

text \<open>Optional chaining \<^verbatim>\<open>v?.k\<close>.\<close>

fun js_get_opt :: "jsval \<Rightarrow> string \<Rightarrow> jsval" where
  "js_get_opt (JObj kvs) k = (case map_of kvs k of None \<Rightarrow> JUndefined | Some v \<Rightarrow> v)"
| "js_get_opt v k = JUndefined"

section \<open>The session document\<close>

record loading_flags =
  loading_stage1 :: bool
  loading_stage2 :: bool
  loading_stage3 :: bool

text \<open>
  An assistant message. A message loaded from the server may come without its
  \<^verbatim>\<open>loading\<close> object (the view reads \<^verbatim>\<open>msg.loading?.stage1\<close>), hence the option.
\<close>

record assistant =
  stage1 :: jsval
  stage2 :: jsval
  stage3 :: jsval
  metadata :: jsval
  loading :: "loading_flags option"

datatype message =
    UserMsg string
  | AssistantMsg assistant

record clarification =
  active :: "bool option"
  history :: "string list option"
  current_question :: jsval
  briefing :: jsval
  confirmed :: "bool option"
  confirmed_at :: jsval

record selection =
  models :: "string list"
  mode :: "string option"
  rationales :: "(string \<times> string) list"

record conversation =
  conv_id :: string
  title :: jsval
  messages :: "message list"
  clarification_state :: "clarification option"
  model_selection :: "selection option"

text \<open>The placeholder of \<^verbatim>\<open>handleSendMessage\<close>: every stage absent, nothing loading.\<close>

definition assistantMessage :: assistant where
  "assistantMessage =
     \<lparr>stage1 = JNull, stage2 = JNull, stage3 = JNull, metadata = JNull,
      loading = Some \<lparr>loading_stage1 = False, loading_stage2 = False, loading_stage3 = False\<rparr>\<rparr>"

section \<open>The stage reducer of the send-message stream\<close>

text \<open>
  Every stage case of the event switch runs the same updater shape:
  \<^verbatim>\<open>
  setCurrentConversation((prev) => {
    const messages = [...prev.messages];
    const lastMsg = messages[messages.length - 1];
    lastMsg.stage1 = event.data;
    lastMsg.loading.stage1 = false;
    return { ...prev, messages };
  });
  \<close>
  With no message at all \<^verbatim>\<open>lastMsg\<close> is \<^verbatim>\<open>undefined\<close>, and with a user message
  or an assistant message without \<^verbatim>\<open>loading\<close> the object \<^verbatim>\<open>lastMsg.loading\<close> is: the
  write throws a \<^verbatim>\<open>TypeError\<close> inside the updater. The message object is shared with
  the previous snapshot and changed in place; the returned document is the only one
  the application keeps, so the model returns it.
\<close>

definition update_last ::
  "(assistant \<Rightarrow> loading_flags \<Rightarrow> assistant) \<Rightarrow> conversation \<Rightarrow> error + conversation" where
  "update_last f prev =
     (case rev (messages prev) of
        [] \<Rightarrow> Inl TypeError
      | UserMsg c # before \<Rightarrow> Inl TypeError
      | AssistantMsg lastMsg # before \<Rightarrow>
          (case loading lastMsg of
             None \<Rightarrow> Inl TypeError
           | Some l \<Rightarrow> Inr (prev\<lparr>messages := rev before @ [AssistantMsg (f lastMsg l)]\<rparr>)))"

definition stage1_start :: "conversation \<Rightarrow> error + conversation" where
  "stage1_start = update_last (\<lambda>lastMsg l. lastMsg\<lparr>loading := Some (l\<lparr>loading_stage1 := True\<rparr>)\<rparr>)"

definition stage2_start :: "conversation \<Rightarrow> error + conversation" where
  "stage2_start = update_last (\<lambda>lastMsg l. lastMsg\<lparr>loading := Some (l\<lparr>loading_stage2 := True\<rparr>)\<rparr>)"

definition stage3_start :: "conversation \<Rightarrow> error + conversation" where
  "stage3_start = update_last (\<lambda>lastMsg l. lastMsg\<lparr>loading := Some (l\<lparr>loading_stage3 := True\<rparr>)\<rparr>)"

text \<open>
  The \<^verbatim>\<open>stageN_complete\<close> updaters read \<^verbatim>\<open>event.data\<close> (and \<^verbatim>\<open>event.metadata\<close>)
  before they touch the message; the decoder never delivers a \<^verbatim>\<open>null\<close> event, but
  the read is kept fallible.
\<close>

definition stage1_complete :: "jsval \<Rightarrow> conversation \<Rightarrow> error + conversation" where
  "stage1_complete event prev =
     (case js_get event ''data'' of
        Inl e \<Rightarrow> Inl e
      | Inr d \<Rightarrow>
          update_last
            (\<lambda>lastMsg l. lastMsg\<lparr>stage1 := d, loading := Some (l\<lparr>loading_stage1 := False\<rparr>)\<rparr>) prev)"

definition stage2_complete :: "jsval \<Rightarrow> conversation \<Rightarrow> error + conversation" where
  "stage2_complete event prev =
     (case js_get event ''data'' of
        Inl e \<Rightarrow> Inl e
      | Inr d \<Rightarrow>
          (case js_get event ''metadata'' of
             Inl e \<Rightarrow> Inl e
           | Inr m \<Rightarrow>
               update_last
                 (\<lambda>lastMsg l. lastMsg\<lparr>stage2 := d, metadata := m,
                                       loading := Some (l\<lparr>loading_stage2 := False\<rparr>)\<rparr>) prev))"

definition stage3_complete :: "jsval \<Rightarrow> conversation \<Rightarrow> error + conversation" where
  "stage3_complete event prev =
     (case js_get event ''data'' of
        Inl e \<Rightarrow> Inl e
      | Inr d \<Rightarrow>
          update_last
            (\<lambda>lastMsg l. lastMsg\<lparr>stage3 := d, loading := Some (l\<lparr>loading_stage3 := False\<rparr>)\<rparr>) prev)"

text \<open>
  \<^verbatim>\<open>title_complete\<close> with a truthy \<^verbatim>\<open>event?.data?.title\<close>:
  \<^verbatim>\<open>setCurrentConversation((prev) => (prev ? { ...prev, title: event.data.title } : prev))\<close>.
\<close>

definition title_of :: "jsval \<Rightarrow> jsval" where
  "title_of event = js_get_opt (js_get_opt event ''data'') ''title''"

definition title_complete :: "jsval \<Rightarrow> conversation \<Rightarrow> error + conversation" where
  "title_complete event prev = Inr (prev\<lparr>title := title_of event\<rparr>)"

text \<open>
  \<^verbatim>\<open>clarification_question\<close>:
  \<^verbatim>\<open>
  const messages = [...prev.messages];
  if (messages.length > 0 &&
      messages[messages.length - 1].role === 'assistant' &&
      !messages[messages.length - 1].stage1) {
    messages.pop();
  }
  return { ...prev, messages,
           clarification_state: { active: true, history: [], current_question: event.data } };
  \<close>
  The new \<^verbatim>\<open>clarification_state\<close> is a fresh object: it has no \<^verbatim>\<open>briefing\<close>,
  \<^verbatim>\<open>confirmed\<close> or \<^verbatim>\<open>confirmed_at\<close> key.
\<close>

definition is_empty_placeholder :: "message \<Rightarrow> bool" where
  "is_empty_placeholder m =
     (case m of UserMsg c \<Rightarrow> False | AssistantMsg a \<Rightarrow> \<not> truthy (stage1 a))"

definition pop_placeholder :: "message list \<Rightarrow> message list" where
  "pop_placeholder ms =
     (case rev ms of
        [] \<Rightarrow> ms
      | lastMsg # before \<Rightarrow> if is_empty_placeholder lastMsg then rev before else ms)"

definition clarification_question :: "jsval \<Rightarrow> conversation \<Rightarrow> error + conversation" where
  "clarification_question event prev =
     (case js_get event ''data'' of
        Inl e \<Rightarrow> Inl e
      | Inr d \<Rightarrow>
          Inr (prev\<lparr>messages := pop_placeholder (messages prev),
                    clarification_state :=
                      Some \<lparr>active = Some True, history = Some [], current_question = d,
                            briefing = JUndefined, confirmed = None,
                            confirmed_at = JUndefined\<rparr>\<rparr>))"

section \<open>Application state\<close>

text \<open>
  The state cells of \<^verbatim>\<open>App\<close> and \<^verbatim>\<open>ChatInterface\<close> that the handlers below write.
  The model starts from a loaded document (\<^verbatim>\<open>currentConversation\<close> is not
  \<^verbatim>\<open>null\<close>). Console output, alert dialogs, scrolling, the sidebar list of
  conversations and the view state of the clarification panel (which an effect derives
  from the document after every change) are left out; every \<^verbatim>\<open>loadConversations()\<close>
  and \<^verbatim>\<open>loadConversation(id)\<close> call is counted. \<^verbatim>\<open>requests\<close> records, for every
  streaming or model-selection request, the document as left by the updates issued before
  the request.
\<close>

datatype request = SendStream | ConfirmStream | PickModels | SaveSelection

record picking =
  picking_mode :: string
  numModels :: nat

record pick_result =
  pick_models :: "string list"
  pick_mode_used :: "string option"
  pick_mode :: "string option"
  pick_rationales :: "(string \<times> string) list"

record app =
  currentConversationId :: "string option"
  currentConversation :: conversation
  isLoading :: bool
  clarification_first_enabled :: bool
  clarificationLoading :: bool
  dynamicPicking :: "picking option"
  modelSelection :: "pick_result option"
  showModelEvaluation :: bool
  modelEvaluationLoading :: bool
  list_reloads :: nat
  conversation_reloads :: nat
  requests :: "(request \<times> conversation) list"

text \<open>
  React applies the queued updaters in the order of the calls. An updater that throws
  fails the render; with no error boundary the tree is unmounted, which is \<open>Inl\<close> here,
  and later updates have nothing to act on.
\<close>

type_synonym root = "error + app"

definition setState :: "(app \<Rightarrow> app) \<Rightarrow> root \<Rightarrow> root" where
  "setState f r = (case r of Inl e \<Rightarrow> Inl e | Inr st \<Rightarrow> Inr (f st))"

definition setCurrentConversation :: "(conversation \<Rightarrow> error + conversation) \<Rightarrow> root \<Rightarrow> root" where
  "setCurrentConversation updater r =
     (case r of
        Inl e \<Rightarrow> Inl e
      | Inr st \<Rightarrow>
          (case updater (currentConversation st) of
             Inl e \<Rightarrow> Inl e
           | Inr c \<Rightarrow> Inr (st\<lparr>currentConversation := c\<rparr>)))"

definition setIsLoading :: "bool \<Rightarrow> root \<Rightarrow> root" where
  "setIsLoading b = setState (\<lambda>st. st\<lparr>isLoading := b\<rparr>)"

definition loadConversations :: "root \<Rightarrow> root" where
  "loadConversations = setState (\<lambda>st. st\<lparr>list_reloads := Suc (list_reloads st)\<rparr>)"

text \<open>
  \<^verbatim>\<open>loadConversation\<close> of \<^verbatim>\<open>App\<close>: when the collaborator answers, its copy replaces
  the document; a failed request is only logged.
\<close>

definition loadConversation :: "error + conversation \<Rightarrow> root \<Rightarrow> root" where
  "loadConversation response r =
     (case response of
        Inl e \<Rightarrow> r
      | Inr conv \<Rightarrow> setCurrentConversation (\<lambda>prev. Inr conv) r)"

definition request :: "request \<Rightarrow> root \<Rightarrow> root" where
  "request rq = setState (\<lambda>st. st\<lparr>requests := requests st @ [(rq, currentConversation st)]\<rparr>)"

section \<open>The event callback of \<^verbatim>\<open>handleSendMessage\<close>\<close>

text \<open>
  The \<^verbatim>\<open>switch (eventType)\<close> compares with \<^verbatim>\<open>===\<close>. The \<^verbatim>\<open>error\<close> case reads
  \<^verbatim>\<open>event.message\<close> in the callback itself: on a \<^verbatim>\<open>null\<close> event that read throws
  into the decoder's \<^verbatim>\<open>catch\<close> before \<^verbatim>\<open>setIsLoading(false)\<close> runs.
\<close>

definition send_onEvent :: "jsval \<Rightarrow> jsval \<Rightarrow> root \<Rightarrow> root" where
  "send_onEvent eventType event r =
     (if eventType = JStr ''stage1_start'' then setCurrentConversation stage1_start r
      else if eventType = JStr ''stage1_complete'' then
        setCurrentConversation (stage1_complete event) r
      else if eventType = JStr ''stage2_start'' then setCurrentConversation stage2_start r
      else if eventType = JStr ''stage2_complete'' then
        setCurrentConversation (stage2_complete event) r
      else if eventType = JStr ''stage3_start'' then setCurrentConversation stage3_start r
      else if eventType = JStr ''stage3_complete'' then
        setCurrentConversation (stage3_complete event) r
      else if eventType = JStr ''title_complete'' then
        (if truthy (title_of event) then setCurrentConversation (title_complete event) r
         else loadConversations r)
      else if eventType = JStr ''clarification_auto_start'' then r
      else if eventType = JStr ''clarification_question'' then
        setIsLoading False (setCurrentConversation (clarification_question event) r)
      else if eventType = JStr ''complete'' then setIsLoading False (loadConversations r)
      else if eventType = JStr ''error'' then
        (case js_get event ''message'' of Inl e \<Rightarrow> r | Inr m \<Rightarrow> setIsLoading False r)
      else r)"

section \<open>The event decoder\<close>

text \<open>
  \<^verbatim>\<open>
  const reader = response.body.getReader();
  const decoder = new TextDecoder();
  while (true) {
    const { done, value } = await reader.read();
    if (done) break;
    const chunk = decoder.decode(value);
    const lines = chunk.split('\n');
    for (const line of lines) {
      if (line.startsWith('data: ')) {
        const data = line.slice(6);
        try {
          const event = JSON.parse(data);
          onEvent(event.type, event);
        } catch (e) {
          console.error('Failed to parse SSE event:', e);
        }
      }
    }
  }
  \<close>
  \<^verbatim>\<open>sendMessageStream\<close> and \<^verbatim>\<open>confirmClarificationBriefing\<close> share this loop and
  differ in the message of the error thrown for a response that is not \<^verbatim>\<open>ok\<close>.
  A chunk is the text \<^verbatim>\<open>decoder.decode(value)\<close> returns. \<^verbatim>\<open>JSON.parse\<close> belongs to the
  platform: the decoder takes it as the parameter \<open>parse\<close>, \<open>None\<close> being a
  \<^verbatim>\<open>SyntaxError\<close>. The \<^verbatim>\<open>try\<close> also covers \<^verbatim>\<open>event.type\<close>, which throws on
  \<^verbatim>\<open>null\<close>.
\<close>

definition newline :: char where
  "newline = CHR 0x0A"

text \<open>\<^verbatim>\<open>chunk.split('\n')\<close>: the empty text gives one empty line.\<close>

fun split_lines :: "string \<Rightarrow> string list" where
  "split_lines [] = [[]]"
| "split_lines (c # cs) =
     (if c = newline then [] # split_lines cs
      else (case split_lines cs of [] \<Rightarrow> [[c]] | l # ls \<Rightarrow> (c # l) # ls))"

definition startsWith :: "string \<Rightarrow> string \<Rightarrow> bool" where
  "startsWith line p = (take (length p) line = p)"

definition process_line ::
  "(string \<Rightarrow> jsval option) \<Rightarrow> (jsval \<Rightarrow> jsval \<Rightarrow> 's \<Rightarrow> 's) \<Rightarrow> string \<Rightarrow> 's \<Rightarrow> 's" where
  "process_line parse onEvent line s =
     (if startsWith line ''data: '' then
        (case parse (drop 6 line) of
           None \<Rightarrow> s
         | Some event \<Rightarrow>
             (case js_get event ''type'' of
                Inl e \<Rightarrow> s
              | Inr eventType \<Rightarrow> onEvent eventType event s))
      else s)"

fun process_lines ::
  "(string \<Rightarrow> jsval option) \<Rightarrow> (jsval \<Rightarrow> jsval \<Rightarrow> 's \<Rightarrow> 's) \<Rightarrow> string list \<Rightarrow> 's \<Rightarrow> 's" where
  "process_lines parse onEvent [] s = s"
| "process_lines parse onEvent (line # lines) s =
     process_lines parse onEvent lines (process_line parse onEvent line s)"

text \<open>
  The body of a response: the chunks its reader delivers, and whether the reader then
  reports \<^verbatim>\<open>done\<close> or rejects (the connection dropped).
\<close>

record response =
  ok :: bool
  chunks :: "string list"
  dropped :: bool

datatype fetch_result = Rejected | Resolved response

fun read_loop ::
  "(string \<Rightarrow> jsval option) \<Rightarrow> (jsval \<Rightarrow> jsval \<Rightarrow> 's \<Rightarrow> 's) \<Rightarrow> string list \<Rightarrow> bool \<Rightarrow> 's
     \<Rightarrow> error option \<times> 's" where
  "read_loop parse onEvent [] drops s = (if drops then Some NetworkError else None, s)"
| "read_loop parse onEvent (chunk # rest) drops s =
     read_loop parse onEvent rest drops (process_lines parse onEvent (split_lines chunk) s)"

definition stream ::
  "string \<Rightarrow> (string \<Rightarrow> jsval option) \<Rightarrow> fetch_result \<Rightarrow> (jsval \<Rightarrow> jsval \<Rightarrow> 's \<Rightarrow> 's) \<Rightarrow> 's
     \<Rightarrow> error option \<times> 's" where
  "stream failure parse fetched onEvent s =
     (case fetched of
        Rejected \<Rightarrow> (Some NetworkError, s)
      | Resolved response \<Rightarrow>
          if \<not> ok response then (Some (Failure failure), s)
          else read_loop parse onEvent (chunks response) (dropped response) s)"

definition sendMessageStream ::
  "(string \<Rightarrow> jsval option) \<Rightarrow> fetch_result \<Rightarrow> (jsval \<Rightarrow> jsval \<Rightarrow> 's \<Rightarrow> 's) \<Rightarrow> 's
     \<Rightarrow> error option \<times> 's" where
  "sendMessageStream = stream ''Failed to send message''"

definition confirmClarificationBriefing ::
  "(string \<Rightarrow> jsval option) \<Rightarrow> fetch_result \<Rightarrow> (jsval \<Rightarrow> jsval \<Rightarrow> 's \<Rightarrow> 's) \<Rightarrow> 's
     \<Rightarrow> error option \<times> 's" where
  "confirmClarificationBriefing = stream ''Failed to confirm briefing''"

text \<open>
  The events a body delivers to its callback, in order: the loop run with a callback
  that records its arguments.
\<close>

definition emitted :: "(string \<Rightarrow> jsval option) \<Rightarrow> string list \<Rightarrow> (jsval \<times> jsval) list" where
  "emitted parse cs = snd (read_loop parse (\<lambda>eventType event evs. evs @ [(eventType, event)]) cs False [])"

definition deliver :: "(jsval \<Rightarrow> jsval \<Rightarrow> 's \<Rightarrow> 's) \<Rightarrow> (jsval \<times> jsval) list \<Rightarrow> 's \<Rightarrow> 's" where
  "deliver onEvent evs s = foldl (\<lambda>s' (eventType, event). onEvent eventType event s') s evs"

section \<open>Sending a message\<close>

text \<open>
  The optimistic title of a first message:
  \<^verbatim>\<open>
  const words = (content || '').trim().split(/\s+/).filter(Boolean);
  const draftTitle = words.slice(0, 6).join(' ') + (words.length > 6 ? '...' : '');
  \<close>
  where the suffix stands for the literal of the source file, the three characters
  U+00E2, U+20AC and U+00A6, seven bytes in UTF-8. The white space of the model is the
  ASCII white space; the white space of the code has the Unicode spaces as well.
\<close>

definition is_space :: "char \<Rightarrow> bool" where
  "is_space c = (c \<in> set [CHR 0x20, CHR 0x09, CHR 0x0A, CHR 0x0B, CHR 0x0C, CHR 0x0D])"

fun words_from :: "string \<Rightarrow> string \<Rightarrow> string list" where
  "words_from w [] = (if w = [] then [] else [rev w])"
| "words_from w (c # cs) =
     (if is_space c then (if w = [] then words_from [] cs else rev w # words_from [] cs)
      else words_from (c # w) cs)"

fun join_words :: "string list \<Rightarrow> string" where
  "join_words [] = []"
| "join_words [w] = w"
| "join_words (w # ws) = w @ '' '' @ join_words ws"

definition ellipsis :: string where
  "ellipsis = [CHR 0xC3, CHR 0xA2, CHR 0xE2, CHR 0x82, CHR 0xAC, CHR 0xC2, CHR 0xA6]"

definition draftTitle :: "string \<Rightarrow> string" where
  "draftTitle content =
     (let words = words_from [] content
      in join_words (take 6 words) @ (if length words > 6 then ellipsis else []))"

definition draft_title :: "string \<Rightarrow> conversation \<Rightarrow> error + conversation" where
  "draft_title content prev =
     Inr (prev\<lparr>title := (if draftTitle content \<noteq> [] then JStr (draftTitle content) else title prev)\<rparr>)"

definition append_message :: "message \<Rightarrow> conversation \<Rightarrow> error + conversation" where
  "append_message m prev = Inr (prev\<lparr>messages := messages prev @ [m]\<rparr>)"

text \<open>The rollback of the \<^verbatim>\<open>catch\<close> clause: \<^verbatim>\<open>prev.messages.slice(0, -2)\<close>.\<close>

definition rollback :: "conversation \<Rightarrow> error + conversation" where
  "rollback prev = Inr (prev\<lparr>messages := take (length (messages prev) - 2) (messages prev)\<rparr>)"

text \<open>
  The updates issued before the request: loading flag, draft title on a first message,
  the user message, and the placeholder unless a clarification is about to start.
\<close>

definition optimistic :: "string \<Rightarrow> app \<Rightarrow> root" where
  "optimistic content st =
     (let isFirstMessage = (messages (currentConversation st) = []);
          clarificationEnabled = clarification_first_enabled st;
          r1 = setIsLoading True (Inr st);
          r2 = (if isFirstMessage then setCurrentConversation (draft_title content) r1 else r1);
          r3 = setCurrentConversation (append_message (UserMsg content)) r2
      in if \<not> isFirstMessage \<or> \<not> clarificationEnabled
         then setCurrentConversation (append_message (AssistantMsg assistantMessage)) r3
         else r3)"

definition handleSendMessage ::
  "(string \<Rightarrow> jsval option) \<Rightarrow> string \<Rightarrow> fetch_result \<Rightarrow> root \<Rightarrow> root" where
  "handleSendMessage parse content fetched r =
     (case r of
        Inl e \<Rightarrow> Inl e
      | Inr st \<Rightarrow>
          if currentConversationId st = None \<or> currentConversationId st = Some [] then r
          else
            (case sendMessageStream parse fetched send_onEvent
                    (request SendStream (optimistic content st)) of
               (None, r') \<Rightarrow> r'
             | (Some e, r') \<Rightarrow> setIsLoading False (setCurrentConversation rollback r')))"

section \<open>The clarification loop\<close>

text \<open>
  The handlers of \<^verbatim>\<open>ChatInterface\<close>. Its \<^verbatim>\<open>onUpdateConversationState\<close> is the
  \<^verbatim>\<open>setCurrentConversation\<close> of \<^verbatim>\<open>App\<close>, so every
  \<^verbatim>\<open>if (onUpdateConversationState)\<close> is taken. \<^verbatim>\<open>{ ...prev.clarification_state, ... }\<close>
  spreads nothing when the state is \<^verbatim>\<open>null\<close>.
\<close>

definition no_clarification :: clarification where
  "no_clarification =
     \<lparr>active = None, history = None, current_question = JUndefined, briefing = JUndefined,
      confirmed = None, confirmed_at = JUndefined\<rparr>"

definition spread_clarification :: "conversation \<Rightarrow> clarification" where
  "spread_clarification prev =
     (case clarification_state prev of None \<Rightarrow> no_clarification | Some cs \<Rightarrow> cs)"

text \<open>\<^verbatim>\<open>prev.clarification_state?.history || []\<close>\<close>

definition history_or_empty :: "conversation \<Rightarrow> string list" where
  "history_or_empty prev =
     (case clarification_state prev of
        None \<Rightarrow> []
      | Some cs \<Rightarrow> (case history cs of None \<Rightarrow> [] | Some h \<Rightarrow> h))"

definition answer_briefing :: "string \<Rightarrow> jsval \<Rightarrow> conversation \<Rightarrow> error + conversation" where
  "answer_briefing answer result prev =
     Inr (prev\<lparr>clarification_state :=
            Some ((spread_clarification prev)
                    \<lparr>active := Some False, history := Some (history_or_empty prev @ [answer]),
                     briefing := result\<rparr>)\<rparr>)"

definition answer_question :: "string \<Rightarrow> jsval \<Rightarrow> conversation \<Rightarrow> error + conversation" where
  "answer_question answer result prev =
     Inr (prev\<lparr>clarification_state :=
            Some ((spread_clarification prev)
                    \<lparr>active := Some True, history := Some (history_or_empty prev @ [answer]),
                     current_question := result\<rparr>)\<rparr>)"

definition setClarificationLoading :: "bool \<Rightarrow> root \<Rightarrow> root" where
  "setClarificationLoading b = setState (\<lambda>st. st\<lparr>clarificationLoading := b\<rparr>)"

text \<open>
  \<open>result\<close> is what \<^verbatim>\<open>api.submitClarificationAnswer\<close> resolves to, or its rejection.
  A \<^verbatim>\<open>null\<close> result makes \<^verbatim>\<open>result.type\<close> throw into the \<^verbatim>\<open>catch\<close>; the
  \<^verbatim>\<open>finally\<close> clears the loading flag on every path.
\<close>

definition handleSubmitClarificationAnswer :: "string \<Rightarrow> error + jsval \<Rightarrow> root \<Rightarrow> root" where
  "handleSubmitClarificationAnswer answer response r =
     (let r1 = setClarificationLoading True r;
          r2 = (case response of
                  Inl e \<Rightarrow> r1
                | Inr result \<Rightarrow>
                    (case js_get result ''type'' of
                       Inl e \<Rightarrow> r1
                     | Inr t \<Rightarrow>
                         if t = JStr ''briefing''
                         then setCurrentConversation (answer_briefing answer result) r1
                         else setCurrentConversation (answer_question answer result) r1))
      in setClarificationLoading False r2)"

section \<open>Confirming the briefing and running the council\<close>

text \<open>
  The updater of \<^verbatim>\<open>handleConfirmBriefing\<close>:
  \<^verbatim>\<open>
  clarification_state: {
    ...(prev.clarification_state || {}),
    active: false,
    confirmed: true,
    confirmed_at: prev.clarification_state?.confirmed_at || new Date().toISOString(),
  }
  \<close>
  with the clock reading as the parameter \<open>now\<close>.
\<close>

definition confirm_briefing :: "string \<Rightarrow> conversation \<Rightarrow> error + conversation" where
  "confirm_briefing now prev =
     Inr (prev\<lparr>clarification_state :=
            Some ((spread_clarification prev)
                    \<lparr>active := Some False, confirmed := Some True,
                     confirmed_at :=
                       (if truthy (confirmed_at (spread_clarification prev))
                        then confirmed_at (spread_clarification prev) else JStr now)\<rparr>)\<rparr>)"

text \<open>The placeholder of \<^verbatim>\<open>proceedToCouncil\<close> starts with stage 1 loading.\<close>

definition councilMessage :: assistant where
  "councilMessage =
     \<lparr>stage1 = JNull, stage2 = JNull, stage3 = JNull, metadata = JNull,
      loading = Some \<lparr>loading_stage1 = True, loading_stage2 = False, loading_stage3 = False\<rparr>\<rparr>"

text \<open>
  The event switch of \<^verbatim>\<open>proceedToCouncil\<close> has the six stage cases,
  \<^verbatim>\<open>complete\<close> (which asks \<^verbatim>\<open>App\<close> to reload the document) and \<^verbatim>\<open>error\<close>, and
  no \<^verbatim>\<open>default\<close>.
\<close>

definition onConversationUpdate :: "root \<Rightarrow> root" where
  "onConversationUpdate = setState (\<lambda>st. st\<lparr>conversation_reloads := Suc (conversation_reloads st)\<rparr>)"

definition council_onEvent :: "jsval \<Rightarrow> jsval \<Rightarrow> root \<Rightarrow> root" where
  "council_onEvent eventType event r =
     (if eventType = JStr ''stage1_start'' then setCurrentConversation stage1_start r
      else if eventType = JStr ''stage1_complete'' then
        setCurrentConversation (stage1_complete event) r
      else if eventType = JStr ''stage2_start'' then setCurrentConversation stage2_start r
      else if eventType = JStr ''stage2_complete'' then
        setCurrentConversation (stage2_complete event) r
      else if eventType = JStr ''stage3_start'' then setCurrentConversation stage3_start r
      else if eventType = JStr ''stage3_complete'' then
        setCurrentConversation (stage3_complete event) r
      else if eventType = JStr ''complete'' then
        onConversationUpdate (setClarificationLoading False r)
      else if eventType = JStr ''error'' then
        (case js_get event ''message'' of
           Inl e \<Rightarrow> r
         | Inr m \<Rightarrow> setClarificationLoading False r)
      else r)"

definition proceedToCouncil :: "(string \<Rightarrow> jsval option) \<Rightarrow> fetch_result \<Rightarrow> root \<Rightarrow> root" where
  "proceedToCouncil parse fetched r =
     (let r1 = setClarificationLoading True r;
          r2 = setCurrentConversation (append_message (AssistantMsg councilMessage)) r1
      in case confirmClarificationBriefing parse fetched council_onEvent
                (request ConfirmStream r2) of
           (None, r') \<Rightarrow> r'
         | (Some e, r') \<Rightarrow> setClarificationLoading False r')"

text \<open>
  \<open>picked\<close> is the outcome of \<^verbatim>\<open>api.pickModels\<close>. With a picking mode chosen and a
  result received the handler stops at the model evaluation stage; otherwise, and when
  the request fails, it goes on to the council.
\<close>

definition handleConfirmBriefing ::
  "string \<Rightarrow> (string \<Rightarrow> jsval option) \<Rightarrow> error + pick_result \<Rightarrow> fetch_result \<Rightarrow> root \<Rightarrow> root" where
  "handleConfirmBriefing now parse picked fetched r =
     (case setCurrentConversation (confirm_briefing now) r of
        Inl e \<Rightarrow> Inl e
      | Inr st \<Rightarrow>
          (case dynamicPicking st of
             None \<Rightarrow> proceedToCouncil parse fetched (Inr st)
           | Some dp \<Rightarrow>
               if picking_mode dp = [] then proceedToCouncil parse fetched (Inr st)
               else
                 (let r1 = request PickModels (Inr (st\<lparr>modelEvaluationLoading := True\<rparr>))
                  in case picked of
                       Inr result \<Rightarrow>
                         setState (\<lambda>st'. st'\<lparr>modelSelection := Some result,
                                              showModelEvaluation := True,
                                              modelEvaluationLoading := False\<rparr>) r1
                     | Inl e \<Rightarrow>
                         proceedToCouncil parse fetched
                           (setState (\<lambda>st'. st'\<lparr>modelEvaluationLoading := False\<rparr>) r1))))"

section \<open>Model selection\<close>

text \<open>
  \<^verbatim>\<open>
  model_selection: {
    models: modelSelection.models,
    mode: modelSelection.mode_used || modelSelection.mode,
    rationales: modelSelection.rationales
  }
  \<close>
\<close>

definition mode_used_or_mode :: "pick_result \<Rightarrow> string option" where
  "mode_used_or_mode ms =
     (case pick_mode_used ms of
        None \<Rightarrow> pick_mode ms
      | Some u \<Rightarrow> if u = [] then pick_mode ms else Some u)"

definition store_selection :: "pick_result \<Rightarrow> conversation \<Rightarrow> error + conversation" where
  "store_selection ms prev =
     Inr (prev\<lparr>model_selection :=
            Some \<lparr>models = pick_models ms, mode = mode_used_or_mode ms,
                  rationales = pick_rationales ms\<rparr>\<rparr>)"

text \<open>
  The request that persists the selection may fail; the handler then only tells the user
  and goes on, so its outcome does not reach the state.
\<close>

definition handleProceedFromModelEvaluation ::
  "(string \<Rightarrow> jsval option) \<Rightarrow> fetch_result \<Rightarrow> root \<Rightarrow> root" where
  "handleProceedFromModelEvaluation parse fetched r =
     (case r of
        Inl e \<Rightarrow> Inl e
      | Inr st \<Rightarrow>
          (let r1 = (case modelSelection st of
                       None \<Rightarrow> r
                     | Some ms \<Rightarrow>
                         request SaveSelection (setCurrentConversation (store_selection ms) r))
           in proceedToCouncil parse fetched
                (setState (\<lambda>st'. st'\<lparr>showModelEvaluation := False\<rparr>) r1)))"

definition restart :: "conversation \<Rightarrow> error + conversation" where
  "restart prev = Inr (prev\<lparr>messages := [], clarification_state := None\<rparr>)"

definition handleCancelModelEvaluation :: "root \<Rightarrow> root" where
  "handleCancelModelEvaluation r =
     setCurrentConversation restart
       (setState (\<lambda>st. st\<lparr>showModelEvaluation := False, modelSelection := None,
                           dynamicPicking := None\<rparr>) r)"

section \<open>Records on the wire\<close>

text \<open>
  The spec's words for the framing: the transport delivers newline-delimited records; a
  record is significant only if it carries the field prefix and its remainder is a
  self-delimited structured payload (with a \<^verbatim>\<open>type\<close> to read, so not \<^verbatim>\<open>null\<close>).
  \<open>record_event\<close> is the event of a significant record, \<open>join_lines\<close> the text of a
  sequence of records.
\<close>

definition record_event :: "(string \<Rightarrow> jsval option) \<Rightarrow> string \<Rightarrow> (jsval \<times> jsval) option" where
  "record_event parse line =
     (if startsWith line ''data: '' then
        (case parse (drop 6 line) of
           None \<Rightarrow> None
         | Some event \<Rightarrow>
             (case js_get event ''type'' of Inl e \<Rightarrow> None | Inr eventType \<Rightarrow> Some (eventType, event)))
      else None)"

fun join_lines :: "string list \<Rightarrow> string" where
  "join_lines [] = []"
| "join_lines [l] = l"
| "join_lines (l # ls) = l @ newline # join_lines ls"

section \<open>A reference \<^verbatim>\<open>JSON.parse\<close>\<close>

text \<open>
  The theorems about the decoder hold for every \<open>parse\<close>. The examples run the decoder
  on wire text and need the platform's function at those texts: \<open>JSON_parse\<close> reads a
  JSON text (RFC 8259) in one pass over its characters, with a stack of the arrays and
  objects that are open. A text that is not JSON is \<open>None\<close>, the \<^verbatim>\<open>SyntaxError\<close>. A
  repeated key keeps its first position and its last value. Strings are byte strings:
  an escape of four hexadecimal digits stands for the UTF-8 bytes of that code unit, each
  half of an escaped surrogate pair on its own. A number keeps the digits of its literal
  and is not rounded to a double. The examples use neither escapes nor numbers that a
  double does not hold exactly.
\<close>

datatype frame = InArr "jsval list" | InObj "(string \<times> jsval) list" string

datatype expect = Val | ValOrClose | KeyOrClose | Key | Colon | Next

datatype numstate = NMinus | NZero | NInt | NDot | NFrac | NE | NESign | NExp

record num =
  negative :: bool
  mantissa :: nat
  fraction_digits :: nat
  exponent_negative :: bool
  exponent :: nat

datatype mode =
    Between expect
  | InStr bool string
  | InEsc bool string
  | InHex bool string nat nat
  | InLit string jsval
  | InNum numstate num
  | Finished jsval

type_synonym pstate = "frame list \<times> mode"

definition json_ws :: "char \<Rightarrow> bool" where
  "json_ws c = (c = CHR 0x20 \<or> c = CHR 0x09 \<or> c = CHR 0x0A \<or> c = CHR 0x0D)"

definition digit :: "char \<Rightarrow> nat option" where
  "digit c = map_of (zip ''0123456789'' [0 ..< 10]) c"

definition hex_digit :: "char \<Rightarrow> nat option" where
  "hex_digit c = map_of (zip ''0123456789abcdefABCDEF'' ([0 ..< 16] @ [10 ..< 16])) c"

definition utf8 :: "nat \<Rightarrow> string" where
  "utf8 n =
     (if n < 0x80 then [char_of n]
      else if n < 0x800 then [char_of (0xC0 + n div 0x40), char_of (0x80 + n mod 0x40)]
      else [char_of (0xE0 + n div 0x1000), char_of (0x80 + n div 0x40 mod 0x40),
            char_of (0x80 + n mod 0x40)])"

definition set_member :: "string \<Rightarrow> jsval \<Rightarrow> (string \<times> jsval) list \<Rightarrow> (string \<times> jsval) list" where
  "set_member k v ms =
     (if k \<in> fst ` set ms then map (\<lambda>(k', v'). if k' = k then (k', v) else (k', v')) ms
      else ms @ [(k, v)])"

fun push_value :: "jsval \<Rightarrow> frame list \<Rightarrow> pstate" where
  "push_value v [] = ([], Finished v)"
| "push_value v (InArr xs # st) = (InArr (xs @ [v]) # st, Between Next)"
| "push_value v (InObj ms k # st) = (InObj (set_member k v ms) [] # st, Between Next)"

definition zero_num :: num where
  "zero_num = \<lparr>negative = False, mantissa = 0, fraction_digits = 0,
               exponent_negative = False, exponent = 0\<rparr>"

definition num_value :: "num \<Rightarrow> jsval" where
  "num_value n =
     JNum (if negative n then - int (mantissa n) else int (mantissa n))
          ((if exponent_negative n then - int (exponent n) else int (exponent n))
             - int (fraction_digits n))"

definition start_value :: "char \<Rightarrow> frame list \<Rightarrow> pstate option" where
  "start_value c st =
     (if c = CHR ''{'' then Some (InObj [] [] # st, Between KeyOrClose)
      else if c = CHR ''['' then Some (InArr [] # st, Between ValOrClose)
      else if c = CHR 0x22 then Some (st, InStr False [])
      else if c = CHR ''t'' then Some (st, InLit ''rue'' (JBool True))
      else if c = CHR ''f'' then Some (st, InLit ''alse'' (JBool False))
      else if c = CHR ''n'' then Some (st, InLit ''ull'' JNull)
      else if c = CHR ''-'' then Some (st, InNum NMinus (zero_num\<lparr>negative := True\<rparr>))
      else if c = CHR ''0'' then Some (st, InNum NZero zero_num)
      else (case digit c of
              Some d \<Rightarrow> Some (st, InNum NInt (zero_num\<lparr>mantissa := d\<rparr>))
            | None \<Rightarrow> None))"

definition close_array :: "frame list \<Rightarrow> pstate option" where
  "close_array st = (case st of InArr xs # st' \<Rightarrow> Some (push_value (JArr xs) st') | _ \<Rightarrow> None)"

definition close_object :: "frame list \<Rightarrow> pstate option" where
  "close_object st = (case st of InObj ms k # st' \<Rightarrow> Some (push_value (JObj ms) st') | _ \<Rightarrow> None)"

definition step_between :: "expect \<Rightarrow> char \<Rightarrow> frame list \<Rightarrow> pstate option" where
  "step_between e c st =
     (if json_ws c then Some (st, Between e)
      else case e of
        Val \<Rightarrow> start_value c st
      | ValOrClose \<Rightarrow> if c = CHR '']'' then close_array st else start_value c st
      | KeyOrClose \<Rightarrow>
          if c = CHR ''}'' then close_object st
          else if c = CHR 0x22 then Some (st, InStr True []) else None
      | Key \<Rightarrow> if c = CHR 0x22 then Some (st, InStr True []) else None
      | Colon \<Rightarrow> if c = CHR '':'' then Some (st, Between Val) else None
      | Next \<Rightarrow>
          if c = CHR '','' then
            (case st of
               InArr xs # st' \<Rightarrow> Some (st, Between Val)
             | InObj ms k # st' \<Rightarrow> Some (st, Between Key)
             | [] \<Rightarrow> None)
          else if c = CHR '']'' then close_array st
          else if c = CHR ''}'' then close_object st
          else None)"

definition end_string :: "bool \<Rightarrow> string \<Rightarrow> frame list \<Rightarrow> pstate option" where
  "end_string is_key s st =
     (if is_key then
        (case st of InObj ms k # st' \<Rightarrow> Some (InObj ms s # st', Between Colon) | _ \<Rightarrow> None)
      else Some (push_value (JStr s) st))"

definition escape :: "char \<Rightarrow> char option" where
  "escape c =
     map_of [(CHR 0x22, CHR 0x22), (CHR 0x5C, CHR 0x5C), (CHR ''/'', CHR ''/''),
             (CHR ''b'', CHR 0x08), (CHR ''f'', CHR 0x0C), (CHR ''n'', CHR 0x0A),
             (CHR ''r'', CHR 0x0D), (CHR ''t'', CHR 0x09)] c"

definition num_final :: "numstate \<Rightarrow> bool" where
  "num_final ns = (ns = NZero \<or> ns = NInt \<or> ns = NFrac \<or> ns = NExp)"

definition step_number :: "numstate \<Rightarrow> num \<Rightarrow> char \<Rightarrow> (numstate \<times> num) option" where
  "step_number ns n c =
     (case digit c of
        Some d \<Rightarrow>
          (case ns of
             NMinus \<Rightarrow> if d = 0 then Some (NZero, n) else Some (NInt, n\<lparr>mantissa := d\<rparr>)
           | NZero \<Rightarrow> None
           | NInt \<Rightarrow> Some (NInt, n\<lparr>mantissa := 10 * mantissa n + d\<rparr>)
           | NDot \<Rightarrow> Some (NFrac, n\<lparr>mantissa := 10 * mantissa n + d,
                                      fraction_digits := Suc (fraction_digits n)\<rparr>)
           | NFrac \<Rightarrow> Some (NFrac, n\<lparr>mantissa := 10 * mantissa n + d,
                                       fraction_digits := Suc (fraction_digits n)\<rparr>)
           | NE \<Rightarrow> Some (NExp, n\<lparr>exponent := d\<rparr>)
           | NESign \<Rightarrow> Some (NExp, n\<lparr>exponent := d\<rparr>)
           | NExp \<Rightarrow> Some (NExp, n\<lparr>exponent := 10 * exponent n + d\<rparr>))
      | None \<Rightarrow>
          if c = CHR ''.'' \<and> (ns = NZero \<or> ns = NInt) then Some (NDot, n)
          else if (c = CHR ''e'' \<or> c = CHR ''E'') \<and> (ns = NZero \<or> ns = NInt \<or> ns = NFrac)
            then Some (NE, n)
          else if c = CHR ''+'' \<and> ns = NE then Some (NESign, n)
          else if c = CHR ''-'' \<and> ns = NE then Some (NESign, n\<lparr>exponent_negative := True\<rparr>)
          else None)"

definition step :: "char \<Rightarrow> pstate \<Rightarrow> pstate option" where
  "step c ps =
     (case ps of (st, m) \<Rightarrow>
        (case m of
           Between e \<Rightarrow> step_between e c st
         | InStr k s \<Rightarrow>
             if c = CHR 0x22 then end_string k (rev s) st
             else if c = CHR 0x5C then Some (st, InEsc k s)
             else if of_char c < (0x20 :: nat) then None
             else Some (st, InStr k (c # s))
         | InEsc k s \<Rightarrow>
             if c = CHR ''u'' then Some (st, InHex k s 4 0)
             else (case escape c of Some c' \<Rightarrow> Some (st, InStr k (c' # s)) | None \<Rightarrow> None)
         | InHex k s left v \<Rightarrow>
             (case hex_digit c of
                None \<Rightarrow> None
              | Some d \<Rightarrow>
                  if left = 1 then Some (st, InStr k (rev (utf8 (16 * v + d)) @ s))
                  else Some (st, InHex k s (left - 1) (16 * v + d)))
         | InLit remaining v \<Rightarrow>
             (case remaining of
                [] \<Rightarrow> None
              | x # xs \<Rightarrow>
                  if c \<noteq> x then None
                  else if xs = [] then Some (push_value v st) else Some (st, InLit xs v))
         | InNum ns n \<Rightarrow>
             (case step_number ns n c of
                Some (ns', n') \<Rightarrow> Some (st, InNum ns' n')
              | None \<Rightarrow>
                  if num_final ns then
                    (case push_value (num_value n) st of
                       (st', Between e) \<Rightarrow> step_between e c st'
                     | (st', Finished v) \<Rightarrow> if json_ws c then Some (st', Finished v) else None
                     | _ \<Rightarrow> None)
                  else None)
         | Finished v \<Rightarrow> if json_ws c then Some ps else None))"

fun steps :: "string \<Rightarrow> pstate \<Rightarrow> pstate option" where
  "steps [] ps = Some ps"
| "steps (c # cs) ps = (case step c ps of None \<Rightarrow> None | Some ps' \<Rightarrow> steps cs ps')"

definition finish :: "pstate \<Rightarrow> jsval option" where
  "finish ps =
     (case ps of
        ([], Finished v) \<Rightarrow> Some v
      | ([], InNum ns n) \<Rightarrow> if num_final ns then Some (num_value n) else None
      | _ \<Rightarrow> None)"

definition JSON_parse :: "string \<Rightarrow> jsval option" where
  "JSON_parse text = (case steps text ([], Between Val) of None \<Rightarrow> None | Some ps \<Rightarrow> finish ps)"

section \<open>Observations on the document\<close>

text \<open>
  \<open>ready\<close>: the last message is an assistant message with its loading flags, the
  shape every stage updater needs. \<open>is_confirmed\<close> is the view's
  \<^verbatim>\<open>!!conversation.clarification_state.confirmed\<close>; \<open>confirmed_inactive\<close> adds that
  \<^verbatim>\<open>active\<close> is false.
\<close>

definition ready :: "conversation \<Rightarrow> bool" where
  "ready c =
     (case rev (messages c) of
        AssistantMsg a # before \<Rightarrow> loading a \<noteq> None
      | _ \<Rightarrow> False)"

definition is_confirmed :: "conversation \<Rightarrow> bool" where
  "is_confirmed c =
     (case clarification_state c of None \<Rightarrow> False | Some cs \<Rightarrow> confirmed cs = Some True)"

definition confirmed_inactive :: "conversation \<Rightarrow> bool" where
  "confirmed_inactive c =
     (case clarification_state c of
        None \<Rightarrow> False
      | Some cs \<Rightarrow> confirmed cs = Some True \<and> active cs = Some False)"

text \<open>What the council stream leaves alone, from one state to a later one.\<close>

definition council_frame :: "app \<Rightarrow> app \<Rightarrow> bool" where
  "council_frame st st' =
     (clarification_state (currentConversation st') = clarification_state (currentConversation st)
      \<and> model_selection (currentConversation st') = model_selection (currentConversation st)
      \<and> modelSelection st' = modelSelection st
      \<and> requests st' = requests st)"

text \<open>The events of a response body: none when the request is rejected or refused.\<close>

definition body_events :: "(string \<Rightarrow> jsval option) \<Rightarrow> fetch_result \<Rightarrow> (jsval \<times> jsval) list" where
  "body_events parse fetched =
     (case fetched of
        Rejected \<Rightarrow> []
      | Resolved response \<Rightarrow> if ok response then emitted parse (chunks response) else [])"

text \<open>The invariant of the data model: the keys of \<^verbatim>\<open>rationales\<close> are among \<^verbatim>\<open>models\<close>.\<close>

definition keys_in_models :: "selection \<Rightarrow> bool" where
  "keys_in_models sel = (set (map fst (rationales sel)) \<subseteq> set (models sel))"

definition result_keys_in_models :: "pick_result \<Rightarrow> bool" where
  "result_keys_in_models ms = (set (map fst (pick_rationales ms)) \<subseteq> set (pick_models ms))"

definition selection_of :: "root \<Rightarrow> error + selection option" where
  "selection_of r =
     (case r of Inl e \<Rightarrow> Inl e | Inr st \<Rightarrow> Inr (model_selection (currentConversation st)))"

section \<open>Operations on a session\<close>

text \<open>
  The operations on the document, each with what the network answers: the five handlers
  above and the reload of the document, which the \<^verbatim>\<open>complete\<close> event of the council
  stream asks for and which ends when the collaborator answers.
\<close>

datatype operation =
    SendMessage string fetch_result
  | SubmitAnswer string "error + jsval"
  | ConfirmBriefing string "error + pick_result" fetch_result
  | ProceedFromModelEvaluation fetch_result
  | CancelModelEvaluation
  | LoadConversation "error + conversation"

fun perform :: "(string \<Rightarrow> jsval option) \<Rightarrow> operation \<Rightarrow> root \<Rightarrow> root" where
  "perform parse (SendMessage content fetched) r = handleSendMessage parse content fetched r"
| "perform parse (SubmitAnswer answer response) r =
     handleSubmitClarificationAnswer answer response r"
| "perform parse (ConfirmBriefing now picked fetched) r =
     handleConfirmBriefing now parse picked fetched r"
| "perform parse (ProceedFromModelEvaluation fetched) r =
     handleProceedFromModelEvaluation parse fetched r"
| "perform parse CancelModelEvaluation r = handleCancelModelEvaluation r"
| "perform parse (LoadConversation response) r = loadConversation response r"

definition perform_all :: "(string \<Rightarrow> jsval option) \<Rightarrow> operation list \<Rightarrow> root \<Rightarrow> root" where
  "perform_all parse ops r = foldl (\<lambda>r' op. perform parse op r') r ops"

text \<open>
  The operations that cannot take a confirmation away: all of them, except a send whose
  stream carries a \<^verbatim>\<open>clarification_question\<close> event, the cancel, and a reload that
  brings a copy of the document that is not confirmed.
\<close>

fun keeps_confirmed :: "(string \<Rightarrow> jsval option) \<Rightarrow> operation \<Rightarrow> bool" where
  "keeps_confirmed parse (SendMessage content fetched) =
     (JStr ''clarification_question'' \<notin> fst ` set (body_events parse fetched))"
| "keeps_confirmed parse CancelModelEvaluation = False"
| "keeps_confirmed parse (LoadConversation (Inr conv)) = is_confirmed conv"
| "keeps_confirmed parse op = True"

section \<open>Example documents and events\<close>

definition no_loading :: loading_flags where
  "no_loading = \<lparr>loading_stage1 = False, loading_stage2 = False, loading_stage3 = False\<rparr>"

definition first_answer :: assistant where
  "first_answer = assistantMessage\<lparr>stage1 := JStr ''first''\<rparr>"

definition overwrite_doc :: conversation where
  "overwrite_doc =
     \<lparr>conv_id = ''c1'', title = JNull,
      messages = [UserMsg ''q'', AssistantMsg first_answer],
      clarification_state = None, model_selection = None\<rparr>"

definition overwrite_event :: jsval where
  "overwrite_event = JObj [(''type'', JStr ''stage1_complete''), (''data'', JStr ''second'')]"

definition blank_answer :: assistant where
  "blank_answer = assistantMessage\<lparr>stage1 := JStr []\<rparr>"

definition blank_doc :: conversation where
  "blank_doc =
     \<lparr>conv_id = ''c1'', title = JNull,
      messages = [UserMsg ''q'', AssistantMsg blank_answer],
      clarification_state = None, model_selection = None\<rparr>"

definition budget_question :: jsval where
  "budget_question = JObj [(''question'', JStr ''What is the budget?'')]"

definition question_event :: jsval where
  "question_event = JObj [(''type'', JStr ''clarification_question''), (''data'', budget_question)]"

definition answered :: clarification where
  "answered =
     \<lparr>active = Some False, history = Some [''$2M''], current_question = JUndefined,
      briefing = JObj [(''objective'', JStr ''Decide on v2 ship date'')],
      confirmed = Some True, confirmed_at = JStr ''2026-01-01T00:00:00.000Z''\<rparr>"

definition answered_doc :: conversation where
  "answered_doc =
     \<lparr>conv_id = ''c1'', title = JNull, messages = [UserMsg ''q''],
      clarification_state = Some answered, model_selection = None\<rparr>"

text \<open>
  A response body of two chunks, cut at line ends. The second record of the first chunk
  is malformed: its payload lacks the closing brace.
\<close>

definition wire_groups :: "string list list" where
  \<open>wire_groups =
     [[''data: {"type":"stage1_start"}'', [],
       ''data: {"type":"stage1_complete","data":["a","b"]'', []],
      [''data: {"type":"complete"}'', [], []]]\<close>






definition idle_app :: "conversation \<Rightarrow> app" where
  "idle_app c =
     \<lparr>currentConversationId = Some (conv_id c), currentConversation = c, isLoading = False,
      clarification_first_enabled = False, clarificationLoading = False, dynamicPicking = None,
      modelSelection = None, showModelEvaluation = False, modelEvaluationLoading = False,
      list_reloads = 0, conversation_reloads = 0, requests = []\<rparr>"

text \<open>
  The events that order a deliberation: the stage events, \<^verbatim>\<open>clarification_question\<close>
  and \<^verbatim>\<open>complete\<close>. \<open>messages_of\<close> reads the message list of the document, if the
  application still stands.
\<close>

definition significant :: "jsval \<times> jsval \<Rightarrow> bool" where
  "significant ev =
     (fst ev \<in> set (map JStr [''stage1_start'', ''stage1_complete'', ''stage2_start'',
        ''stage2_complete'', ''stage3_start'', ''stage3_complete'', ''clarification_question'',
        ''complete'']))"

definition messages_of :: "root \<Rightarrow> error + message list" where
  "messages_of r = (case r of Inl e \<Rightarrow> Inl e | Inr st \<Rightarrow> Inr (messages (currentConversation st)))"

text \<open>
  Scenario A of the spec: a new session, one question, and the response body of a full
  deliberation in two chunks, a \<^verbatim>\<open>title_complete\<close> record among the stage records.
\<close>

definition scenario_a_doc :: conversation where
  "scenario_a_doc =
     \<lparr>conv_id = ''c1'', title = JStr ''New reasoning'',
      messages = [UserMsg ''Should we ship v2 this quarter?'', AssistantMsg assistantMessage],
      clarification_state = None, model_selection = None\<rparr>"

definition scenario_a_chunks :: "string list" where
  \<open>scenario_a_chunks = map join_lines
     [[''data: {"type":"stage1_start"}'', [],
       ''data: {"type":"stage1_complete","data":["a","b"]}'', [],
       ''data: {"type":"stage2_start"}'', [],
       ''data: {"type":"title_complete","data":{"title":"Shipping v2"}}'', [], []],
      [''data: {"type":"stage2_complete","data":{"rank":[1,0]},"metadata":{"n":2}}'', [],
       ''data: {"type":"stage3_start"}'', [],
       ''data: {"type":"stage3_complete","data":"Ship it."}'', [],
       ''data: {"type":"complete"}'', [], []]]\<close>

definition scenario_a_events :: "(jsval \<times> jsval) list" where
  "scenario_a_events = emitted JSON_parse scenario_a_chunks"

text \<open>A document whose briefing awaits confirmation, and a council stream that drops.\<close>

definition pending_briefing :: clarification where
  "pending_briefing =
     \<lparr>active = Some False, history = Some [''$2M''], current_question = budget_question,
      briefing = JObj [(''objective'', JStr ''Decide on v2 ship date'')],
      confirmed = None, confirmed_at = JUndefined\<rparr>"

definition briefing_doc :: conversation where
  "briefing_doc =
     \<lparr>conv_id = ''c1'', title = JStr ''Ship v2'', messages = [UserMsg ''Should we ship v2?''],
      clarification_state = Some pending_briefing, model_selection = None\<rparr>"

definition council_body :: fetch_result where
  \<open>council_body =
     Resolved \<lparr>ok = True,
               chunks = map join_lines
                 [[''data: {"type":"stage1_start"}'', [],
                   ''data: {"type":"stage1_complete","data":["a","b"]}'', [], []]],
               dropped = True\<rparr>\<close>

text \<open>
  An evaluation result with a rationale for a model that is not among its models, shown
  at the model evaluation stage.
\<close>

definition stray_result :: pick_result where
  "stray_result =
     \<lparr>pick_models = [''openai/gpt-4o''], pick_mode_used = Some ''cheapest'', pick_mode = None,
      pick_rationales = [(''openai/gpt-4o'', ''Lowest cost''), (''anthropic/claude-3'', ''Second choice'')]\<rparr>"

definition evaluation_app :: app where
  "evaluation_app = (idle_app briefing_doc)\<lparr>modelSelection := Some stray_result, showModelEvaluation := True\<rparr>"

definition sound_result :: pick_result where
  "sound_result =
     \<lparr>pick_models = [''openai/gpt-4o'', ''anthropic/claude-3''], pick_mode_used = None,
      pick_mode = Some ''cheapest'', pick_rationales = [(''openai/gpt-4o'', ''Lowest cost'')]\<rparr>"

definition sound_app :: app where
  "sound_app = (idle_app briefing_doc)\<lparr>modelSelection := Some sound_result, showModelEvaluation := True\<rparr>"

text \<open>A second question, as the answer endpoint returns it.\<close>

definition next_question :: jsval where
  "next_question = JObj [(''type'', JStr ''question''), (''question'', JStr ''By when?'')]"

text \<open>
  A confirmed session, and four operations on it: a send that the network rejects, one
  more answer, a second confirmation whose stream drops, and a reload that brings a
  confirmed copy.
\<close>

definition confirmed_app :: app where
  "confirmed_app = idle_app answered_doc"

definition later_operations :: "operation list" where
  "later_operations =
     [SendMessage ''And v3?'' Rejected,
      SubmitAnswer ''By Q3'' (Inr next_question),
      ConfirmBriefing ''2026-02-01T00:00:00.000Z'' (Inl NetworkError) council_body,
      LoadConversation (Inr answered_doc)]"

text \<open>An answer as the server stores it, without a \<^verbatim>\<open>loading\<close> object.\<close>

definition loaded_answer :: assistant where
  "loaded_answer =
     \<lparr>stage1 = JArr [JStr ''a''], stage2 = JNull, stage3 = JNull, metadata = JNull, loading = None\<rparr>"

definition loaded_doc :: conversation where
  "loaded_doc =
     \<lparr>conv_id = ''c1'', title = JNull, messages = [UserMsg ''q'', AssistantMsg loaded_answer],
      clarification_state = None, model_selection = None\<rparr>"

text \<open>
  A body of two records, the first malformed, whose chunk boundary falls inside the
  second.
\<close>

definition cut_chunks :: "string list" where
  \<open>cut_chunks =
     [''data: {broken'' @ newline # ''data: {"type":"comp'', ''lete"}'' @ [newline]]\<close>

section \<open>Properties of the stage reducer\<close>

lemma update_last_bare:
  "messages prev = before @ [AssistantMsg a] \<Longrightarrow> loading a = None \<Longrightarrow>
   update_last f prev = Inl TypeError"
  by (simp add: update_last_def)

lemma update_last_snoc:
  "messages prev = before @ [AssistantMsg a] \<Longrightarrow> loading a = Some l \<Longrightarrow>
   update_last f prev = Inr (prev\<lparr>messages := before @ [AssistantMsg (f a l)]\<rparr>)"
  by (simp add: update_last_def)

lemma pop_placeholder_Nil: "pop_placeholder [] = []"
  by (simp add: pop_placeholder_def)

lemma pop_placeholder_snoc:
  "pop_placeholder (before @ [m]) = (if is_empty_placeholder m then before else before @ [m])"
  by (simp add: pop_placeholder_def)

text \<open>
  C1 (as stated, refuted): the stage field of \<open>first_answer\<close> is present, and a
  \<^verbatim>\<open>stage1_complete\<close> event with another payload is not ignored: it replaces the field.
\<close>

theorem stage_complete_write_once_counterexample:
  "stage1 first_answer \<noteq> JNull \<and>
   stage1_complete overwrite_event overwrite_doc \<noteq> Inr overwrite_doc \<and>
   stage1_complete overwrite_event overwrite_doc =
     Inr (overwrite_doc\<lparr>messages :=
       [UserMsg ''q'', AssistantMsg (first_answer\<lparr>stage1 := JStr ''second''\<rparr>)]\<rparr>)"
  by (simp add: stage1_complete_def update_last_def overwrite_doc_def overwrite_event_def
      first_answer_def assistantMessage_def)

text \<open>
  C1 (amended): a \<^verbatim>\<open>stageN_complete\<close> event is applied unconditionally. On every
  document whose last message is an assistant message with its \<^verbatim>\<open>loading\<close> object, as
  every placeholder has, it sets the stage field to the payload of the event (stage 2
  also the metadata) and the loading flag of the stage to false, whatever the field held
  before; only a second delivery of the same event changes nothing. On an assistant
  message without a \<^verbatim>\<open>loading\<close> object the write of the flag throws a
  \<^verbatim>\<open>TypeError\<close> and the updater returns no document.
\<close>

theorem stage_complete_overwrites:
  assumes "messages prev = before @ [AssistantMsg a]"
    and "js_get event ''data'' = Inr d" and "js_get event ''metadata'' = Inr m"
  shows "(\<forall>l. loading a = Some l \<longrightarrow>
           stage1_complete event prev =
             Inr (prev\<lparr>messages := before @
               [AssistantMsg (a\<lparr>stage1 := d, loading := Some (l\<lparr>loading_stage1 := False\<rparr>)\<rparr>)]\<rparr>)
         \<and> stage2_complete event prev =
             Inr (prev\<lparr>messages := before @
               [AssistantMsg (a\<lparr>stage2 := d, metadata := m,
                                 loading := Some (l\<lparr>loading_stage2 := False\<rparr>)\<rparr>)]\<rparr>)
         \<and> stage3_complete event prev =
             Inr (prev\<lparr>messages := before @
               [AssistantMsg (a\<lparr>stage3 := d, loading := Some (l\<lparr>loading_stage3 := False\<rparr>)\<rparr>)]\<rparr>))
       \<and> (loading a = None \<longrightarrow>
             stage1_complete event prev = Inl TypeError
           \<and> stage2_complete event prev = Inl TypeError
           \<and> stage3_complete event prev = Inl TypeError)
       \<and> (\<forall>prev'. stage1_complete event prev = Inr prev' \<longrightarrow> stage1_complete event prev' = Inr prev')
       \<and> (\<forall>prev'. stage2_complete event prev = Inr prev' \<longrightarrow> stage2_complete event prev' = Inr prev')
       \<and> (\<forall>prev'. stage3_complete event prev = Inr prev' \<longrightarrow> stage3_complete event prev' = Inr prev')"
proof (cases "loading a")
  case None
  with assms show ?thesis
    by (simp add: stage1_complete_def stage2_complete_def stage3_complete_def update_last_bare)
next
  case (Some l)
  with assms show ?thesis
    by (simp add: stage1_complete_def stage2_complete_def stage3_complete_def update_last_snoc)
qed

theorem stage_complete_overwrites_witness:
  "messages overwrite_doc = [UserMsg ''q''] @ [AssistantMsg first_answer]
   \<and> loading first_answer = Some no_loading
   \<and> js_get overwrite_event ''data'' = Inr (JStr ''second'')
   \<and> js_get overwrite_event ''metadata'' = Inr JUndefined
   \<and> stage1_complete overwrite_event overwrite_doc =
       Inr (overwrite_doc\<lparr>messages := [UserMsg ''q''] @
         [AssistantMsg (first_answer\<lparr>stage1 := JStr ''second'',
            loading := Some (no_loading\<lparr>loading_stage1 := False\<rparr>)\<rparr>)]\<rparr>)
   \<and> messages loaded_doc = [UserMsg ''q''] @ [AssistantMsg loaded_answer]
   \<and> loading loaded_answer = None
   \<and> stage1_complete overwrite_event loaded_doc = Inl TypeError"
proof -
  have m1: "messages overwrite_doc = [UserMsg ''q''] @ [AssistantMsg first_answer]"
    by (simp add: overwrite_doc_def)
  have m2: "messages loaded_doc = [UserMsg ''q''] @ [AssistantMsg loaded_answer]"
    by (simp add: loaded_doc_def)
  have d: "js_get overwrite_event ''data'' = Inr (JStr ''second'')"
    and m: "js_get overwrite_event ''metadata'' = Inr JUndefined"
    by (simp_all add: overwrite_event_def)
  have l1: "loading first_answer = Some no_loading"
    by (simp add: first_answer_def assistantMessage_def no_loading_def)
  have l2: "loading loaded_answer = None"
    by (simp add: loaded_answer_def)
  from stage_complete_overwrites [OF m1 d m] l1
  have w1: "stage1_complete overwrite_event overwrite_doc =
       Inr (overwrite_doc\<lparr>messages := [UserMsg ''q''] @
         [AssistantMsg (first_answer\<lparr>stage1 := JStr ''second'',
            loading := Some (no_loading\<lparr>loading_stage1 := False\<rparr>)\<rparr>)]\<rparr>)"
    by blast
  from stage_complete_overwrites [OF m2 d m] l2
  have w2: "stage1_complete overwrite_event loaded_doc = Inl TypeError"
    by blast
  from m1 m2 d m l1 l2 w1 w2 show ?thesis by blast
qed

text \<open>
  C4 (as stated, refuted): the test is \<^verbatim>\<open>!messages[messages.length - 1].stage1\<close>, the
  truthiness of the field and not its presence. The last message of \<open>blank_doc\<close> has
  its stage 1 set, to the empty string, and the event removes it.
\<close>

theorem clarification_question_pops_counterexample:
  "stage1 blank_answer \<noteq> JNull \<and> stage1 blank_answer \<noteq> JUndefined \<and>
   messages blank_doc = [UserMsg ''q'', AssistantMsg blank_answer] \<and>
   clarification_question question_event blank_doc =
     Inr (blank_doc\<lparr>messages := [UserMsg ''q''],
            clarification_state :=
              Some \<lparr>active = Some True, history = Some [], current_question = budget_question,
                    briefing = JUndefined, confirmed = None, confirmed_at = JUndefined\<rparr>\<rparr>)"
  by (simp add: clarification_question_def pop_placeholder_def is_empty_placeholder_def
      blank_doc_def question_event_def blank_answer_def assistantMessage_def)

text \<open>
  C4 (amended): a \<^verbatim>\<open>clarification_question\<close> event removes the trailing message if
  and only if it is an assistant message whose \<^verbatim>\<open>stage1\<close> is falsy (\<^verbatim>\<open>null\<close>,
  \<^verbatim>\<open>undefined\<close>, \<^verbatim>\<open>false\<close>, zero or the empty string). With no message, a user
  message or an assistant message whose \<^verbatim>\<open>stage1\<close> is truthy (every array and object
  is) the list is left as it is. In all cases \<^verbatim>\<open>active\<close> becomes true and
  \<^verbatim>\<open>current_question\<close> the payload of the event.
\<close>

theorem clarification_question_pops:
  assumes "js_get event ''data'' = Inr d"
  shows "\<exists>prev'. clarification_question event prev = Inr prev'
       \<and> (messages prev = [] \<longrightarrow> messages prev' = [])
       \<and> (\<forall>before c. messages prev = before @ [UserMsg c] \<longrightarrow> messages prev' = messages prev)
       \<and> (\<forall>before a. messages prev = before @ [AssistantMsg a] \<longrightarrow>
             messages prev' = (if truthy (stage1 a) then messages prev else before))
       \<and> (\<exists>cs. clarification_state prev' = Some cs \<and> active cs = Some True \<and> current_question cs = d)"
  using assms
  by (auto simp: clarification_question_def pop_placeholder_snoc pop_placeholder_Nil
      is_empty_placeholder_def)

theorem clarification_question_pops_witness:
  "js_get question_event ''data'' = Inr budget_question \<and>
   (\<exists>prev'. clarification_question question_event overwrite_doc = Inr prev'
       \<and> messages prev' = messages overwrite_doc
       \<and> (\<exists>cs. clarification_state prev' = Some cs \<and> active cs = Some True
                \<and> current_question cs = budget_question)) \<and>
   (\<exists>prev'. clarification_question question_event scenario_a_doc = Inr prev'
       \<and> messages prev' = [UserMsg ''Should we ship v2 this quarter?''])"
proof -
  have data: "js_get question_event ''data'' = Inr budget_question"
    by (simp add: question_event_def)
  have msgs: "messages overwrite_doc = [UserMsg ''q''] @ [AssistantMsg first_answer]"
    by (simp add: overwrite_doc_def)
  have set: "truthy (stage1 first_answer)"
    by (simp add: first_answer_def)
  have placeholder: "messages scenario_a_doc =
      [UserMsg ''Should we ship v2 this quarter?''] @ [AssistantMsg assistantMessage]"
    by (simp add: scenario_a_doc_def)
  have unset: "\<not> truthy (stage1 assistantMessage)"
    by (simp add: assistantMessage_def)
  from clarification_question_pops [OF data, of overwrite_doc] msgs set data
  have kept: "\<exists>prev'. clarification_question question_event overwrite_doc = Inr prev'
       \<and> messages prev' = messages overwrite_doc
       \<and> (\<exists>cs. clarification_state prev' = Some cs \<and> active cs = Some True
                \<and> current_question cs = budget_question)"
    by auto
  from clarification_question_pops [OF data, of scenario_a_doc] placeholder unset
  have "\<exists>prev'. clarification_question question_event scenario_a_doc = Inr prev'
       \<and> messages prev' = [UserMsg ''Should we ship v2 this quarter?'']"
    by auto
  with data kept show ?thesis by blast
qed

text \<open>
  C5 (as stated, refuted): \<open>answered_doc\<close> carries one answer in its history; after a
  \<^verbatim>\<open>clarification_question\<close> event the history is empty.
\<close>

theorem clarification_question_history_counterexample:
  "clarification_state answered_doc = Some answered \<and> history answered = Some [''$2M''] \<and>
   clarification_question question_event answered_doc =
     Inr (answered_doc\<lparr>clarification_state :=
            Some \<lparr>active = Some True, history = Some [], current_question = budget_question,
                  briefing = JUndefined, confirmed = None, confirmed_at = JUndefined\<rparr>\<rparr>)"
  by (simp add: clarification_question_def answered_doc_def question_event_def answered_def
      pop_placeholder_def is_empty_placeholder_def)

text \<open>
  C5 (amended): a \<^verbatim>\<open>clarification_question\<close> event replaces the clarification state
  by a fresh one, \<^verbatim>\<open>{ active: true, history: [], current_question: event.data }\<close>: the
  history after the event is empty whatever it was before, and no briefing or
  confirmation is left.
\<close>

theorem clarification_question_resets:
  assumes "js_get event ''data'' = Inr d"
  shows "\<exists>prev'. clarification_question event prev = Inr prev' \<and>
           clarification_state prev' =
             Some \<lparr>active = Some True, history = Some [], current_question = d,
                   briefing = JUndefined, confirmed = None, confirmed_at = JUndefined\<rparr>"
  using assms by (simp add: clarification_question_def)

theorem clarification_question_resets_witness:
  "js_get question_event ''data'' = Inr budget_question \<and>
   (\<exists>prev'. clarification_question question_event answered_doc = Inr prev' \<and>
      clarification_state prev' =
        Some \<lparr>active = Some True, history = Some [], current_question = budget_question,
              briefing = JUndefined, confirmed = None, confirmed_at = JUndefined\<rparr>)"
proof -
  have data: "js_get question_event ''data'' = Inr budget_question"
    by (simp add: question_event_def)
  from clarification_question_resets [OF data, of answered_doc] data
  show ?thesis by simp
qed

section \<open>Properties of the event decoder\<close>

lemma split_lines_line:
  "newline \<notin> set l \<Longrightarrow> split_lines (l @ newline # rest) = l # split_lines rest"
  by (induction l) (auto split: list.splits)

lemma split_lines_single: "newline \<notin> set l \<Longrightarrow> split_lines l = [l]"
  by (induction l) (auto split: list.splits)

lemma split_join_lines:
  "ls \<noteq> [] \<Longrightarrow> \<forall>l \<in> set ls. newline \<notin> set l \<Longrightarrow> split_lines (join_lines ls) = ls"
  by (induction ls rule: join_lines.induct) (simp_all add: split_lines_single split_lines_line)

lemma concat_split_join:
  "\<forall>g \<in> set groups. g \<noteq> [] \<Longrightarrow> \<forall>l \<in> set (concat groups). newline \<notin> set l \<Longrightarrow>
   concat (map split_lines (map join_lines groups)) = concat groups"
  by (induction groups) (simp_all add: split_join_lines)

lemma deliver_Nil: "deliver onEvent [] s = s"
  by (simp add: deliver_def)

lemma deliver_Cons: "deliver onEvent ((t, e) # evs) s = deliver onEvent evs (onEvent t e s)"
  by (simp add: deliver_def)

lemma deliver_append: "deliver onEvent (xs @ ys) s = deliver onEvent ys (deliver onEvent xs s)"
  by (simp add: deliver_def)

text \<open>One line of the loop delivers the event of the record, if the record has one.\<close>

lemma process_line_deliver:
  "process_line parse onEvent line s =
     deliver onEvent (case record_event parse line of None \<Rightarrow> [] | Some ev \<Rightarrow> [ev]) s"
  by (simp add: process_line_def record_event_def deliver_def split: option.splits sum.splits)

lemma process_lines_deliver:
  "process_lines parse onEvent ls s = deliver onEvent (List.map_filter (record_event parse) ls) s"
  by (induction ls arbitrary: s)
     (simp_all add: process_line_deliver deliver_def split: option.splits)

lemma map_filter_append:
  "List.map_filter f (xs @ ys) = List.map_filter f xs @ List.map_filter f ys"
  by (simp add: List.map_filter_def)

lemma read_loop_deliver:
  "read_loop parse onEvent cs drops s =
     (if drops then Some NetworkError else None,
      deliver onEvent (List.map_filter (record_event parse) (concat (map split_lines cs))) s)"
  by (induction cs arbitrary: s)
     (simp_all add: deliver_Nil map_filter_append deliver_append process_lines_deliver
        List.map_filter_def[of _ "[]"])

lemma deliver_recorded:
  "deliver (\<lambda>eventType event evs. evs @ [(eventType, event)]) evs acc = acc @ evs"
  by (induction evs arbitrary: acc) (auto simp: deliver_Nil deliver_Cons)

lemma emitted_records:
  "emitted parse cs = List.map_filter (record_event parse) (concat (map split_lines cs))"
  by (simp add: emitted_def read_loop_deliver deliver_recorded)

lemma read_loop_emitted:
  "read_loop parse onEvent cs drops s =
     (if drops then Some NetworkError else None, deliver onEvent (emitted parse cs) s)"
  by (simp add: read_loop_deliver emitted_records)

lemma emitted_typed: "(t, e) \<in> set (emitted parse cs) \<Longrightarrow> js_get e ''type'' = Inr t"
  by (auto simp: emitted_records List.map_filter_def record_event_def
      split: if_splits option.splits sum.splits)

text \<open>
  Every chunk is the text of its lines, a list that is never empty and whose lines have
  no newline: the bodies of the next theorem are all bodies.
\<close>

lemma split_lines_nonempty: "split_lines s \<noteq> []"
  by (induction s) (auto split: list.splits)

lemma split_lines_newline_free: "\<forall>l \<in> set (split_lines s). newline \<notin> set l"
  by (induction s) (auto split: list.splits)

lemma join_split_lines: "join_lines (split_lines s) = s"
proof (induction s)
  case Nil
  show ?case by simp
next
  case (Cons c s)
  obtain l ls where sl: "split_lines s = l # ls"
    using split_lines_nonempty [of s] by (cases "split_lines s") auto
  with Cons show ?case
    by (cases ls) auto
qed

lemma split_lines_break: "split_lines (xs @ newline # ys) = split_lines xs @ split_lines ys"
  by (induction xs) (auto split: list.splits simp: split_lines_nonempty)

lemma record_event_empty: "record_event parse [] = None"
  by (simp add: record_event_def startsWith_def)

lemma records_after_line_end:
  assumes "c \<noteq> []" and "last c = newline"
  shows "List.map_filter (record_event parse) (split_lines (c @ rest)) =
         List.map_filter (record_event parse) (split_lines c) @
         List.map_filter (record_event parse) (split_lines rest)"
proof -
  from assms obtain xs where c: "c = xs @ [newline]"
    by (metis append_butlast_last_id)
  have "split_lines (c @ rest) = split_lines xs @ split_lines rest"
    unfolding c using split_lines_break [of xs rest] by simp
  moreover have "split_lines c = split_lines xs @ [[]]"
    unfolding c using split_lines_break [of xs "[]"] by simp
  ultimately show ?thesis
    by (simp add: map_filter_append List.map_filter_def record_event_empty)
qed

lemma records_of_body:
  "\<forall>c \<in> set (butlast cs). c \<noteq> [] \<and> last c = newline \<Longrightarrow>
   List.map_filter (record_event parse) (concat (map split_lines cs)) =
   List.map_filter (record_event parse) (split_lines (concat cs))"
proof (induction cs)
  case Nil
  show ?case by (simp add: List.map_filter_def record_event_empty)
next
  case (Cons c cs)
  show ?case
  proof (cases cs)
    case Nil
    then show ?thesis by simp
  next
    case (Cons c2 rest)
    with Cons.prems have c: "c \<noteq> []" "last c = newline"
      and others: "\<forall>c \<in> set (butlast cs). c \<noteq> [] \<and> last c = newline"
      by simp_all
    from Cons.IH [OF others] records_after_line_end [OF c, of parse "concat cs"]
    show ?thesis
      by (simp add: map_filter_append)
  qed
qed

text \<open>
  C9 (as stated, refuted): the decoder reads a body chunk by chunk, so its records are
  those of each chunk and not those of the body. The body of \<open>cut_chunks\<close> holds a
  malformed record and, after it, a well-formed \<^verbatim>\<open>complete\<close> record; the chunk
  boundary falls inside the second record, and the decoder delivers nothing.
\<close>

theorem malformed_records_dropped_counterexample:
  "List.map_filter (record_event JSON_parse) (split_lines (concat cut_chunks)) =
     [(JStr ''complete'', JObj [(''type'', JStr ''complete'')])] \<and>
   emitted JSON_parse cut_chunks = []"
  unfolding emitted_records by code_simp

text \<open>
  C9 (amended): take a response body whose chunk boundaries fall at line ends, so that
  every chunk but the last ends with a newline and no record spans two chunks. Both
  streaming functions resolve without an error, and the callback receives exactly the
  events of the well-formed records of the body, in their order: a record whose payload
  does not parse contributes nothing and stops nothing.
\<close>

theorem malformed_records_dropped:
  assumes "\<forall>c \<in> set (butlast cs). c \<noteq> [] \<and> last c = newline"
  shows "sendMessageStream parse (Resolved \<lparr>ok = True, chunks = cs, dropped = False\<rparr>) onEvent s
         = (None, deliver onEvent
                    (List.map_filter (record_event parse) (split_lines (concat cs))) s)
       \<and> confirmClarificationBriefing parse
           (Resolved \<lparr>ok = True, chunks = cs, dropped = False\<rparr>) onEvent s
         = (None, deliver onEvent
                    (List.map_filter (record_event parse) (split_lines (concat cs))) s)
       \<and> emitted parse cs = List.map_filter (record_event parse) (split_lines (concat cs))"
  using records_of_body [OF assms, of parse]
  by (simp add: sendMessageStream_def confirmClarificationBriefing_def stream_def
      read_loop_deliver emitted_records)

lemma wire_chunks_cut: "\<forall>c \<in> set (butlast (map join_lines wire_groups)). c \<noteq> [] \<and> last c = newline"
  by (simp add: wire_groups_def)

lemma wire_body_events:
  "List.map_filter (record_event JSON_parse) (split_lines (concat (map join_lines wire_groups))) =
     [(JStr ''stage1_start'', JObj [(''type'', JStr ''stage1_start'')]),
      (JStr ''complete'', JObj [(''type'', JStr ''complete'')])]"
  by code_simp

theorem malformed_records_dropped_witness:
  "list_all (\<lambda>c. c \<noteq> [] \<and> last c = newline) (butlast (map join_lines wire_groups)) \<and>
   sendMessageStream JSON_parse
     (Resolved \<lparr>ok = True, chunks = map join_lines wire_groups, dropped = False\<rparr>)
     (\<lambda>eventType event evs. evs @ [eventType]) []
   = (None, [JStr ''stage1_start'', JStr ''complete''])"
proof -
  from malformed_records_dropped [OF wire_chunks_cut, of JSON_parse
      "\<lambda>eventType event evs. evs @ [eventType]" "[]"]
  have "sendMessageStream JSON_parse
     (Resolved \<lparr>ok = True, chunks = map join_lines wire_groups, dropped = False\<rparr>)
     (\<lambda>eventType event evs. evs @ [eventType]) []
   = (None, [JStr ''stage1_start'', JStr ''complete''])"
    unfolding wire_body_events deliver_def by simp
  with wire_chunks_cut show ?thesis
    by (simp add: list_all_iff)
qed









section \<open>Properties of sending a message\<close>

text \<open>
  What an event does to the message list depends on the message list alone, and an
  event that is not significant leaves the list as it is: the list after a stream is the
  list after its significant events.
\<close>

lemma messages_of_Inr: "messages_of r = Inr ms \<longleftrightarrow> (\<exists>st. r = Inr st \<and> messages (currentConversation st) = ms)"
  by (cases r) (auto simp: messages_of_def)

lemma messages_of_setState:
  "(\<And>st. currentConversation (f st) = currentConversation st) \<Longrightarrow>
   messages_of (setState f r) = messages_of r"
  by (cases r) (simp_all add: messages_of_def setState_def)

lemma messages_of_setCurrentConversation:
  assumes "\<And>c c'. messages c = messages c' \<Longrightarrow>
             map_sum id messages (upd c) = map_sum id messages (upd c')"
    and "messages_of r = messages_of r'"
  shows "messages_of (setCurrentConversation upd r) = messages_of (setCurrentConversation upd r')"
proof (cases r)
  case (Inl e)
  with assms(2) show ?thesis
    by (cases r') (simp_all add: messages_of_def setCurrentConversation_def)
next
  case (Inr st)
  with assms(2) obtain st' where r': "r' = Inr st'"
    and eq: "messages (currentConversation st) = messages (currentConversation st')"
    by (cases r') (simp_all add: messages_of_def)
  from assms(1) [OF eq] Inr r' show ?thesis
    by (auto simp: messages_of_def setCurrentConversation_def split: sum.splits)
qed

lemma update_last_cong:
  "messages c = messages c' \<Longrightarrow>
   map_sum id messages (update_last f c) = map_sum id messages (update_last f c')"
  by (simp add: update_last_def split: list.splits message.splits option.splits)

lemma stage_cong:
  assumes "messages c = messages c'"
  shows "map_sum id messages (stage1_start c) = map_sum id messages (stage1_start c')"
    and "map_sum id messages (stage2_start c) = map_sum id messages (stage2_start c')"
    and "map_sum id messages (stage3_start c) = map_sum id messages (stage3_start c')"
    and "map_sum id messages (stage1_complete e c) = map_sum id messages (stage1_complete e c')"
    and "map_sum id messages (stage2_complete e c) = map_sum id messages (stage2_complete e c')"
    and "map_sum id messages (stage3_complete e c) = map_sum id messages (stage3_complete e c')"
    and "map_sum id messages (title_complete e c) = map_sum id messages (title_complete e c')"
    and "map_sum id messages (clarification_question e c) = map_sum id messages (clarification_question e c')"
  using assms update_last_cong [OF assms]
  by (simp_all add: stage1_start_def stage2_start_def stage3_start_def stage1_complete_def
      stage2_complete_def stage3_complete_def title_complete_def clarification_question_def
      split: sum.splits)

lemma setIsLoading_cong:
  "messages_of r = messages_of r' \<Longrightarrow> messages_of (setIsLoading b r) = messages_of (setIsLoading b r')"
  by (simp add: setIsLoading_def messages_of_setState)

lemma loadConversations_cong:
  "messages_of r = messages_of r' \<Longrightarrow> messages_of (loadConversations r) = messages_of (loadConversations r')"
  by (simp add: loadConversations_def messages_of_setState)

lemma send_onEvent_cong:
  assumes "messages_of r = messages_of r'"
  shows "messages_of (send_onEvent t e r) = messages_of (send_onEvent t e r')"
  using assms unfolding send_onEvent_def
  by (auto split: sum.splits
      intro!: messages_of_setCurrentConversation stage_cong setIsLoading_cong loadConversations_cong)

lemma title_neutral: "messages_of (setCurrentConversation (title_complete e) r) = messages_of r"
  by (cases r) (simp_all add: messages_of_def setCurrentConversation_def title_complete_def)

lemma send_onEvent_neutral:
  "\<not> significant (t, e) \<Longrightarrow> messages_of (send_onEvent t e r) = messages_of r"
  by (simp add: significant_def send_onEvent_def setIsLoading_def loadConversations_def
      messages_of_setState title_neutral split: sum.splits)

lemma deliver_send_cong:
  "messages_of r = messages_of r' \<Longrightarrow>
   messages_of (deliver send_onEvent evs r) = messages_of (deliver send_onEvent evs r')"
proof (induction evs arbitrary: r r')
  case Nil
  then show ?case by (simp add: deliver_Nil)
next
  case (Cons ev evs)
  obtain t e where ev: "ev = (t, e)" by (cases ev)
  from Cons.IH [OF send_onEvent_cong [OF Cons.prems, of t e]] ev show ?case
    by (simp add: deliver_Cons)
qed

lemma deliver_send_filter:
  "messages_of (deliver send_onEvent evs r) =
   messages_of (deliver send_onEvent (filter significant evs) r)"
proof (induction evs arbitrary: r)
  case Nil
  show ?case by simp
next
  case (Cons ev evs)
  obtain t e where ev: "ev = (t, e)" by (cases ev)
  show ?case
  proof (cases "significant (t, e)")
    case True
    with Cons.IH [of "send_onEvent t e r"] ev show ?thesis
      by (simp add: deliver_Cons)
  next
    case False
    have "messages_of (deliver send_onEvent evs (send_onEvent t e r)) =
          messages_of (deliver send_onEvent (filter significant evs) (send_onEvent t e r))"
      by (rule Cons.IH)
    also have "\<dots> = messages_of (deliver send_onEvent (filter significant evs) r)"
      by (rule deliver_send_cong) (rule send_onEvent_neutral [OF False])
    finally show ?thesis using False ev
      by (simp add: deliver_Cons)
  qed
qed


lemma canonical_run:
  assumes "messages (currentConversation st) = before @ [AssistantMsg a]" and "loading a = Some l"
    and "js_get e2 ''data'' = Inr d1" and "js_get e4 ''data'' = Inr d2"
    and "js_get e4 ''metadata'' = Inr m2" and "js_get e6 ''data'' = Inr d3"
  shows "messages_of (deliver send_onEvent
           [(JStr ''stage1_start'', e1), (JStr ''stage1_complete'', e2),
            (JStr ''stage2_start'', e3), (JStr ''stage2_complete'', e4),
            (JStr ''stage3_start'', e5), (JStr ''stage3_complete'', e6),
            (JStr ''complete'', e7)] (Inr st)) =
         Inr (before @ [AssistantMsg (a\<lparr>stage1 := d1, stage2 := d2, stage3 := d3, metadata := m2,
                                         loading := Some no_loading\<rparr>)])"
  using assms
  by (simp add: deliver_Cons deliver_Nil send_onEvent_def setCurrentConversation_def
      setIsLoading_def loadConversations_def setState_def messages_of_def
      stage1_start_def stage2_start_def stage3_start_def
      stage1_complete_def stage2_complete_def stage3_complete_def update_last_def no_loading_def)

text \<open>
  C2: take any stream of events whose significant events are, in this order,
  \<^verbatim>\<open>stage1_start\<close>, \<^verbatim>\<open>stage1_complete\<close>, \<^verbatim>\<open>stage2_start\<close>, \<^verbatim>\<open>stage2_complete\<close>,
  \<^verbatim>\<open>stage3_start\<close>, \<^verbatim>\<open>stage3_complete\<close> and \<^verbatim>\<open>complete\<close> (title, information,
  error and unknown events may come in between), and a document whose last message is an
  assistant message with its loading flags, as the placeholder is. Folding the stream
  into the document succeeds, and in the final document the three stage fields of that
  message are the \<^verbatim>\<open>data\<close> of the three \<^verbatim>\<open>stageN_complete\<close> events, its metadata
  the \<^verbatim>\<open>metadata\<close> of the \<^verbatim>\<open>stage2_complete\<close> event, and all loading flags are false.
\<close>

theorem stage_events_fold:
  assumes "messages (currentConversation st) = before @ [AssistantMsg a]" and "loading a = Some l"
    and "filter significant evs =
           [(JStr ''stage1_start'', e1), (JStr ''stage1_complete'', e2),
            (JStr ''stage2_start'', e3), (JStr ''stage2_complete'', e4),
            (JStr ''stage3_start'', e5), (JStr ''stage3_complete'', e6),
            (JStr ''complete'', e7)]"
    and "js_get e2 ''data'' = Inr d1" and "js_get e4 ''data'' = Inr d2"
    and "js_get e4 ''metadata'' = Inr m2" and "js_get e6 ''data'' = Inr d3"
  shows "\<exists>st'. deliver send_onEvent evs (Inr st) = Inr st' \<and>
           messages (currentConversation st') =
             before @ [AssistantMsg (a\<lparr>stage1 := d1, stage2 := d2, stage3 := d3, metadata := m2,
                                         loading := Some no_loading\<rparr>)]"
proof -
  have "messages_of (deliver send_onEvent evs (Inr st)) =
        messages_of (deliver send_onEvent (filter significant evs) (Inr st))"
    by (rule deliver_send_filter)
  also have "\<dots> = Inr (before @ [AssistantMsg (a\<lparr>stage1 := d1, stage2 := d2, stage3 := d3,
                                   metadata := m2, loading := Some no_loading\<rparr>)])"
    unfolding assms(3) by (rule canonical_run [OF assms(1,2,4-7)])
  finally show ?thesis
    by (simp add: messages_of_Inr)
qed

lemma scenario_a_decoded:
  "scenario_a_events =
     [(JStr ''stage1_start'', JObj [(''type'', JStr ''stage1_start'')]),
      (JStr ''stage1_complete'',
       JObj [(''type'', JStr ''stage1_complete''), (''data'', JArr [JStr ''a'', JStr ''b''])]),
      (JStr ''stage2_start'', JObj [(''type'', JStr ''stage2_start'')]),
      (JStr ''title_complete'',
       JObj [(''type'', JStr ''title_complete''), (''data'', JObj [(''title'', JStr ''Shipping v2'')])]),
      (JStr ''stage2_complete'',
       JObj [(''type'', JStr ''stage2_complete''),
             (''data'', JObj [(''rank'', JArr [JNum 1 0, JNum 0 0])]),
             (''metadata'', JObj [(''n'', JNum 2 0)])]),
      (JStr ''stage3_start'', JObj [(''type'', JStr ''stage3_start'')]),
      (JStr ''stage3_complete'', JObj [(''type'', JStr ''stage3_complete''), (''data'', JStr ''Ship it.'')]),
      (JStr ''complete'', JObj [(''type'', JStr ''complete'')])]"
  unfolding scenario_a_events_def emitted_records by code_simp

theorem stage_events_fold_witness:
  "messages (currentConversation (idle_app scenario_a_doc)) =
     [UserMsg ''Should we ship v2 this quarter?''] @ [AssistantMsg assistantMessage]
   \<and> loading assistantMessage = Some no_loading
   \<and> (\<exists>st'. deliver send_onEvent scenario_a_events (Inr (idle_app scenario_a_doc)) = Inr st' \<and>
         messages (currentConversation st') =
           [UserMsg ''Should we ship v2 this quarter?'',
            AssistantMsg \<lparr>stage1 = JArr [JStr ''a'', JStr ''b''],
                          stage2 = JObj [(''rank'', JArr [JNum 1 0, JNum 0 0])],
                          stage3 = JStr ''Ship it.'',
                          metadata = JObj [(''n'', JNum 2 0)],
                          loading = Some no_loading\<rparr>])"
proof -
  have msgs: "messages (currentConversation (idle_app scenario_a_doc)) =
     [UserMsg ''Should we ship v2 this quarter?''] @ [AssistantMsg assistantMessage]"
    by (simp add: idle_app_def scenario_a_doc_def)
  have flags: "loading assistantMessage = Some no_loading"
    by (simp add: assistantMessage_def no_loading_def)
  have order: "filter significant scenario_a_events =
     [(JStr ''stage1_start'', JObj [(''type'', JStr ''stage1_start'')]),
      (JStr ''stage1_complete'',
       JObj [(''type'', JStr ''stage1_complete''), (''data'', JArr [JStr ''a'', JStr ''b''])]),
      (JStr ''stage2_start'', JObj [(''type'', JStr ''stage2_start'')]),
      (JStr ''stage2_complete'',
       JObj [(''type'', JStr ''stage2_complete''),
             (''data'', JObj [(''rank'', JArr [JNum 1 0, JNum 0 0])]),
             (''metadata'', JObj [(''n'', JNum 2 0)])]),
      (JStr ''stage3_start'', JObj [(''type'', JStr ''stage3_start'')]),
      (JStr ''stage3_complete'', JObj [(''type'', JStr ''stage3_complete''), (''data'', JStr ''Ship it.'')]),
      (JStr ''complete'', JObj [(''type'', JStr ''complete'')])]"
    unfolding scenario_a_decoded by (simp add: significant_def)
  from stage_events_fold [OF msgs flags order, of "JArr [JStr ''a'', JStr ''b'']"
      "JObj [(''rank'', JArr [JNum 1 0, JNum 0 0])]" "JObj [(''n'', JNum 2 0)]" "JStr ''Ship it.''"]
  have "\<exists>st'. deliver send_onEvent scenario_a_events (Inr (idle_app scenario_a_doc)) = Inr st' \<and>
         messages (currentConversation st') =
           [UserMsg ''Should we ship v2 this quarter?''] @
           [AssistantMsg (assistantMessage\<lparr>stage1 := JArr [JStr ''a'', JStr ''b''],
               stage2 := JObj [(''rank'', JArr [JNum 1 0, JNum 0 0])],
               stage3 := JStr ''Ship it.'', metadata := JObj [(''n'', JNum 2 0)],
               loading := Some no_loading\<rparr>)]"
    by simp
  then have "\<exists>st'. deliver send_onEvent scenario_a_events (Inr (idle_app scenario_a_doc)) = Inr st' \<and>
         messages (currentConversation st') =
           [UserMsg ''Should we ship v2 this quarter?'',
            AssistantMsg \<lparr>stage1 = JArr [JStr ''a'', JStr ''b''],
                          stage2 = JObj [(''rank'', JArr [JNum 1 0, JNum 0 0])],
                          stage3 = JStr ''Ship it.'',
                          metadata = JObj [(''n'', JNum 2 0)],
                          loading = Some no_loading\<rparr>]"
    by (simp add: assistantMessage_def)
  with msgs flags show ?thesis by blast
qed



lemma optimistic_messages:
  "\<exists>st1. optimistic content st = Inr st1 \<and> requests st1 = requests st \<and>
     clarification_state (currentConversation st1) = clarification_state (currentConversation st) \<and>
     model_selection (currentConversation st1) = model_selection (currentConversation st) \<and>
     messages (currentConversation st1) =
       messages (currentConversation st) @ UserMsg content #
         (if messages (currentConversation st) = [] \<and> clarification_first_enabled st then []
          else [AssistantMsg assistantMessage])"
  by (simp add: optimistic_def Let_def setIsLoading_def setState_def setCurrentConversation_def
      draft_title_def append_message_def)




section \<open>Properties of the council stream\<close>

text \<open>
  The placeholder of \<^verbatim>\<open>proceedToCouncil\<close> is the last message throughout its stream,
  so no stage updater fails there, and the stream changes neither the clarification
  state nor the model selection.
\<close>

lemma ready_snoc: "ready c \<longleftrightarrow> (\<exists>before a l. messages c = before @ [AssistantMsg a] \<and> loading a = Some l)"
proof (cases "messages c" rule: rev_cases)
  case Nil
  then show ?thesis by (simp add: ready_def)
next
  case (snoc before m)
  then show ?thesis by (cases m) (auto simp: ready_def)
qed

lemma update_last_ready:
  assumes "ready c" and "\<And>a l. loading (f a l) \<noteq> None"
  shows "\<exists>c'. update_last f c = Inr c' \<and> ready c' \<and>
           clarification_state c' = clarification_state c \<and> model_selection c' = model_selection c"
proof -
  from assms(1) obtain before a l where "messages c = before @ [AssistantMsg a]" "loading a = Some l"
    by (auto simp: ready_snoc)
  then have "update_last f c = Inr (c\<lparr>messages := before @ [AssistantMsg (f a l)]\<rparr>)"
    by (rule update_last_snoc)
  with assms(2) [of a l] show ?thesis
    by (simp add: ready_def)
qed

lemma js_get_total: "js_get e k = Inr t \<Longrightarrow> \<exists>v. js_get e k' = Inr v"
  by (cases e) simp_all

lemma council_updaters:
  assumes "ready c" and "js_get e ''type'' = Inr t"
  shows "\<exists>c'. stage1_start c = Inr c' \<and> ready c' \<and>
           clarification_state c' = clarification_state c \<and> model_selection c' = model_selection c"
    and "\<exists>c'. stage2_start c = Inr c' \<and> ready c' \<and>
           clarification_state c' = clarification_state c \<and> model_selection c' = model_selection c"
    and "\<exists>c'. stage3_start c = Inr c' \<and> ready c' \<and>
           clarification_state c' = clarification_state c \<and> model_selection c' = model_selection c"
    and "\<exists>c'. stage1_complete e c = Inr c' \<and> ready c' \<and>
           clarification_state c' = clarification_state c \<and> model_selection c' = model_selection c"
    and "\<exists>c'. stage2_complete e c = Inr c' \<and> ready c' \<and>
           clarification_state c' = clarification_state c \<and> model_selection c' = model_selection c"
    and "\<exists>c'. stage3_complete e c = Inr c' \<and> ready c' \<and>
           clarification_state c' = clarification_state c \<and> model_selection c' = model_selection c"
proof -
  from js_get_total [OF assms(2)] obtain d m where
    d: "js_get e ''data'' = Inr d" and m: "js_get e ''metadata'' = Inr m"
    by blast
  show "\<exists>c'. stage1_start c = Inr c' \<and> ready c' \<and>
           clarification_state c' = clarification_state c \<and> model_selection c' = model_selection c"
    unfolding stage1_start_def by (rule update_last_ready [OF assms(1)]) simp
  show "\<exists>c'. stage2_start c = Inr c' \<and> ready c' \<and>
           clarification_state c' = clarification_state c \<and> model_selection c' = model_selection c"
    unfolding stage2_start_def by (rule update_last_ready [OF assms(1)]) simp
  show "\<exists>c'. stage3_start c = Inr c' \<and> ready c' \<and>
           clarification_state c' = clarification_state c \<and> model_selection c' = model_selection c"
    unfolding stage3_start_def by (rule update_last_ready [OF assms(1)]) simp
  show "\<exists>c'. stage1_complete e c = Inr c' \<and> ready c' \<and>
           clarification_state c' = clarification_state c \<and> model_selection c' = model_selection c"
    unfolding stage1_complete_def d sum.case by (rule update_last_ready [OF assms(1)]) simp
  show "\<exists>c'. stage2_complete e c = Inr c' \<and> ready c' \<and>
           clarification_state c' = clarification_state c \<and> model_selection c' = model_selection c"
    unfolding stage2_complete_def d m sum.case by (rule update_last_ready [OF assms(1)]) simp
  show "\<exists>c'. stage3_complete e c = Inr c' \<and> ready c' \<and>
           clarification_state c' = clarification_state c \<and> model_selection c' = model_selection c"
    unfolding stage3_complete_def d sum.case by (rule update_last_ready [OF assms(1)]) simp
qed

lemma setCurrentConversation_council:
  assumes "\<exists>c'. upd (currentConversation st) = Inr c' \<and> ready c' \<and>
           clarification_state c' = clarification_state (currentConversation st) \<and>
           model_selection c' = model_selection (currentConversation st)"
  shows "\<exists>st'. setCurrentConversation upd (Inr st) = Inr st' \<and> ready (currentConversation st') \<and>
           council_frame st st'"
  using assms by (auto simp: setCurrentConversation_def council_frame_def)

lemma council_onEvent_step:
  assumes "ready (currentConversation st)" and "js_get e ''type'' = Inr t"
  shows "\<exists>st'. council_onEvent t e (Inr st) = Inr st' \<and> ready (currentConversation st') \<and>
           council_frame st st'"
proof -
  have other: "\<exists>st'. setClarificationLoading False (Inr st) = Inr st' \<and>
      ready (currentConversation st') \<and> council_frame st st'"
    using assms(1) by (simp add: setClarificationLoading_def setState_def council_frame_def)
  have fin: "\<exists>st'. onConversationUpdate (setClarificationLoading False (Inr st)) = Inr st' \<and>
      ready (currentConversation st') \<and> council_frame st st'"
    using assms(1)
    by (simp add: setClarificationLoading_def onConversationUpdate_def setState_def council_frame_def)
  have same: "\<exists>st'. Inr st = Inr st' \<and> ready (currentConversation st') \<and> council_frame st st'"
    using assms(1) by (simp add: council_frame_def)
  note u = council_updaters [OF assms]
  note upd =
    setCurrentConversation_council [of stage1_start st, OF u(1)]
    setCurrentConversation_council [of stage2_start st, OF u(2)]
    setCurrentConversation_council [of stage3_start st, OF u(3)]
    setCurrentConversation_council [of "stage1_complete e" st, OF u(4)]
    setCurrentConversation_council [of "stage2_complete e" st, OF u(5)]
    setCurrentConversation_council [of "stage3_complete e" st, OF u(6)]
  show ?thesis
    unfolding council_onEvent_def
    using upd other fin same by (simp split: sum.splits)
qed

lemma council_frame_trans: "council_frame a b \<Longrightarrow> council_frame b c \<Longrightarrow> council_frame a c"
  by (simp add: council_frame_def)

lemma deliver_council:
  assumes "ready (currentConversation st)" and "\<forall>(t, e) \<in> set evs. js_get e ''type'' = Inr t"
  shows "\<exists>st'. deliver council_onEvent evs (Inr st) = Inr st' \<and> ready (currentConversation st') \<and>
           council_frame st st'"
  using assms
proof (induction evs arbitrary: st)
  case Nil
  then show ?case by (simp add: deliver_Nil council_frame_def)
next
  case (Cons ev evs)
  obtain t e where ev: "ev = (t, e)" by (cases ev)
  with Cons.prems have typed: "js_get e ''type'' = Inr t" by simp
  from council_onEvent_step [OF Cons.prems(1) typed] obtain st1 where
    1: "council_onEvent t e (Inr st) = Inr st1" "ready (currentConversation st1)" "council_frame st st1"
    by blast
  from Cons.IH [OF 1(2)] Cons.prems(2) obtain st' where
    2: "deliver council_onEvent evs (Inr st1) = Inr st'" "ready (currentConversation st')"
       "council_frame st1 st'"
    by auto
  from 1 2 ev show ?case
    by (auto simp: deliver_Cons intro: council_frame_trans)
qed

lemma body_events_typed: "\<forall>(t, e) \<in> set (body_events parse fetched). js_get e ''type'' = Inr t"
  by (auto simp: body_events_def dest: emitted_typed split: fetch_result.splits if_splits)

lemma stream_body_events:
  "\<exists>outcome. stream failure parse fetched onEvent s =
     (outcome, deliver onEvent (body_events parse fetched) s)"
  by (simp add: stream_def body_events_def read_loop_emitted deliver_Nil split: fetch_result.splits)

lemma proceedToCouncil_frame:
  "\<exists>st'. proceedToCouncil parse fetched (Inr st) = Inr st' \<and>
     clarification_state (currentConversation st') = clarification_state (currentConversation st) \<and>
     model_selection (currentConversation st') = model_selection (currentConversation st) \<and>
     modelSelection st' = modelSelection st \<and>
     requests st' = requests st @
       [(ConfirmStream, (currentConversation st)
           \<lparr>messages := messages (currentConversation st) @ [AssistantMsg councilMessage]\<rparr>)]"
proof -
  let ?c1 = "(currentConversation st)
           \<lparr>messages := messages (currentConversation st) @ [AssistantMsg councilMessage]\<rparr>"
  let ?st1 = "st\<lparr>clarificationLoading := True, currentConversation := ?c1,
                 requests := requests st @ [(ConfirmStream, ?c1)]\<rparr>"
  have start: "request ConfirmStream
      (setCurrentConversation (append_message (AssistantMsg councilMessage))
        (setClarificationLoading True (Inr st))) = Inr ?st1"
    by (simp add: request_def setCurrentConversation_def setClarificationLoading_def setState_def
        append_message_def)
  have rdy: "ready (currentConversation ?st1)"
    by (simp add: ready_def councilMessage_def)
  from stream_body_events [of "''Failed to confirm briefing''" parse fetched council_onEvent "Inr ?st1"]
  obtain outcome where run: "confirmClarificationBriefing parse fetched council_onEvent (Inr ?st1) =
      (outcome, deliver council_onEvent (body_events parse fetched) (Inr ?st1))"
    by (auto simp: confirmClarificationBriefing_def)
  from deliver_council [OF rdy body_events_typed] obtain st2 where
    fin: "deliver council_onEvent (body_events parse fetched) (Inr ?st1) = Inr st2"
      "council_frame ?st1 st2"
    by blast
  show ?thesis
    using start run fin
    by (cases outcome)
       (auto simp: proceedToCouncil_def Let_def council_frame_def setClarificationLoading_def
          setState_def)
qed


lemma confirm_briefing_confirms:
  "\<exists>c'. confirm_briefing now c = Inr c' \<and> confirmed_inactive c' \<and>
     messages c' = messages c \<and> model_selection c' = model_selection c"
  by (simp add: confirm_briefing_def confirmed_inactive_def)

lemma confirmed_inactive_cong:
  "clarification_state c' = clarification_state c \<Longrightarrow> confirmed_inactive c' = confirmed_inactive c"
  by (simp add: confirmed_inactive_def)

lemma proceedToCouncil_confirmed:
  assumes "confirmed_inactive (currentConversation st)"
  shows "\<exists>st'. proceedToCouncil parse fetched (Inr st) = Inr st' \<and>
           confirmed_inactive (currentConversation st') \<and>
           model_selection (currentConversation st') = model_selection (currentConversation st) \<and>
           (\<exists>c. requests st' = requests st @ [(ConfirmStream, c)] \<and> confirmed_inactive c)"
proof -
  from proceedToCouncil_frame [of parse fetched st] obtain st' where
    run: "proceedToCouncil parse fetched (Inr st) = Inr st'" and
    cs: "clarification_state (currentConversation st') = clarification_state (currentConversation st)" and
    ms: "model_selection (currentConversation st') = model_selection (currentConversation st)" and
    rq: "requests st' = requests st @
       [(ConfirmStream, (currentConversation st)
           \<lparr>messages := messages (currentConversation st) @ [AssistantMsg councilMessage]\<rparr>)]"
    by blast
  have "confirmed_inactive ((currentConversation st)
           \<lparr>messages := messages (currentConversation st) @ [AssistantMsg councilMessage]\<rparr>)"
    using assms by (simp add: confirmed_inactive_def)
  with run cs ms rq assms show ?thesis
    by (auto simp: confirmed_inactive_cong [OF cs])
qed

lemma handleConfirmBriefing_confirmed:
  "\<exists>st'. handleConfirmBriefing now parse picked fetched (Inr st) = Inr st'
     \<and> confirmed_inactive (currentConversation st')
     \<and> (\<exists>new. requests st' = requests st @ new \<and> new \<noteq> [] \<and>
           (\<forall>(rq, c) \<in> set new. confirmed_inactive c))"
proof -
  from confirm_briefing_confirms [of now "currentConversation st"] obtain c0 where
    c0: "confirm_briefing now (currentConversation st) = Inr c0" "confirmed_inactive c0"
    by blast
  let ?st0 = "st\<lparr>currentConversation := c0\<rparr>"
  have first: "setCurrentConversation (confirm_briefing now) (Inr st) = Inr ?st0"
    using c0 by (simp add: setCurrentConversation_def)
  have conf0: "confirmed_inactive (currentConversation ?st0)"
    using c0 by simp
  show ?thesis
  proof (cases "\<exists>dp. dynamicPicking st = Some dp \<and> picking_mode dp \<noteq> []")
    case False
    then have "handleConfirmBriefing now parse picked fetched (Inr st) =
        proceedToCouncil parse fetched (Inr ?st0)"
      using first by (auto simp: handleConfirmBriefing_def split: option.splits)
    with proceedToCouncil_confirmed [OF conf0, of parse fetched] show ?thesis
      by auto
  next
    case True
    then obtain dp where dp: "dynamicPicking st = Some dp" "picking_mode dp \<noteq> []"
      by blast
    let ?st1 = "?st0\<lparr>modelEvaluationLoading := True,
                      requests := requests st @ [(PickModels, c0)]\<rparr>"
    have asked: "request PickModels (Inr (?st0\<lparr>modelEvaluationLoading := True\<rparr>)) = Inr ?st1"
      by (simp add: request_def setState_def)
    show ?thesis
    proof (cases picked)
      case (Inr result)
      with dp first asked c0 show ?thesis
        by (simp add: handleConfirmBriefing_def Let_def setState_def)
    next
      case (Inl e)
      let ?st2 = "?st1\<lparr>modelEvaluationLoading := False\<rparr>"
      have conf2: "confirmed_inactive (currentConversation ?st2)"
        using c0 by simp
      from Inl dp first asked have "handleConfirmBriefing now parse picked fetched (Inr st) =
          proceedToCouncil parse fetched (Inr ?st2)"
        by (simp add: handleConfirmBriefing_def Let_def setState_def)
      with proceedToCouncil_confirmed [OF conf2, of parse fetched] c0 show ?thesis
        by auto
    qed
  qed
qed

text \<open>
  C7: \<^verbatim>\<open>handleConfirmBriefing\<close> issues the update that sets \<^verbatim>\<open>confirmed\<close> to true
  and \<^verbatim>\<open>active\<close> to false before anything else, and React applies updates in the
  order of issue. So every request of the handler, the model pick and the deliberation
  stream, is recorded with a document that is already confirmed and inactive; the
  document recorded with \<^verbatim>\<open>ConfirmStream\<close> is the one the first event of the stream is
  applied to. The stream never touches the clarification state, and the handler ends
  with a confirmed, inactive document whatever the network does.
\<close>

theorem confirm_before_requests:
  "\<exists>st'. handleConfirmBriefing now parse picked fetched (Inr st) = Inr st'
     \<and> confirmed_inactive (currentConversation st')
     \<and> (\<exists>new. requests st' = requests st @ new \<and> new \<noteq> [] \<and>
           (\<forall>(rq, c) \<in> set new. confirmed_inactive c))"
  by (rule handleConfirmBriefing_confirmed)

lemma council_body_events:
  "body_events JSON_parse council_body =
     [(JStr ''stage1_start'', JObj [(''type'', JStr ''stage1_start'')]),
      (JStr ''stage1_complete'',
       JObj [(''type'', JStr ''stage1_complete''), (''data'', JArr [JStr ''a'', JStr ''b''])])]"
  unfolding body_events_def council_body_def emitted_records by code_simp

theorem confirm_before_requests_witness:
  "\<not> confirmed_inactive briefing_doc \<and>
   handleConfirmBriefing ''2026-01-01'' JSON_parse (Inl NetworkError) council_body
     (Inr (idle_app briefing_doc)) =
   Inr ((idle_app briefing_doc)
     \<lparr>currentConversation := briefing_doc
        \<lparr>messages := [UserMsg ''Should we ship v2?'',
            AssistantMsg (councilMessage\<lparr>stage1 := JArr [JStr ''a'', JStr ''b''],
               loading := Some no_loading\<rparr>)],
         clarification_state := Some (pending_briefing
            \<lparr>active := Some False, confirmed := Some True, confirmed_at := JStr ''2026-01-01''\<rparr>)\<rparr>,
      requests := [(ConfirmStream, briefing_doc
        \<lparr>messages := [UserMsg ''Should we ship v2?'', AssistantMsg councilMessage],
         clarification_state := Some (pending_briefing
            \<lparr>active := Some False, confirmed := Some True, confirmed_at := JStr ''2026-01-01''\<rparr>)\<rparr>)]\<rparr>)"
proof -
  have run: "confirmClarificationBriefing JSON_parse council_body council_onEvent s =
      (Some NetworkError, deliver council_onEvent (body_events JSON_parse council_body) s)" for s
    by (simp add: confirmClarificationBriefing_def stream_def council_body_def body_events_def
        read_loop_emitted)
  from confirm_before_requests [of "''2026-01-01''" JSON_parse "Inl NetworkError" council_body
      "idle_app briefing_doc"]
  obtain st' where "handleConfirmBriefing ''2026-01-01'' JSON_parse (Inl NetworkError) council_body
     (Inr (idle_app briefing_doc)) = Inr st'" and "confirmed_inactive (currentConversation st')"
    by blast
  then show ?thesis
    by (simp add: handleConfirmBriefing_def idle_app_def briefing_doc_def pending_briefing_def
        confirmed_inactive_def setCurrentConversation_def confirm_briefing_def
        spread_clarification_def proceedToCouncil_def Let_def setClarificationLoading_def
        setState_def append_message_def request_def run council_body_events
        deliver_Cons deliver_Nil council_onEvent_def stage1_start_def stage1_complete_def
        update_last_def councilMessage_def no_loading_def)
qed

section \<open>Properties of the model selection\<close>

lemma handleProceed_selection:
  "\<exists>st'. handleProceedFromModelEvaluation parse fetched (Inr st) = Inr st' \<and>
     clarification_state (currentConversation st') = clarification_state (currentConversation st) \<and>
     model_selection (currentConversation st') =
       (case modelSelection st of
          None \<Rightarrow> model_selection (currentConversation st)
        | Some ms \<Rightarrow> Some \<lparr>models = pick_models ms, mode = mode_used_or_mode ms,
                           rationales = pick_rationales ms\<rparr>)"
proof (cases "modelSelection st")
  case None
  then have "handleProceedFromModelEvaluation parse fetched (Inr st) =
      proceedToCouncil parse fetched (Inr (st\<lparr>showModelEvaluation := False\<rparr>))"
    by (simp add: handleProceedFromModelEvaluation_def setState_def)
  with proceedToCouncil_frame [of parse fetched "st\<lparr>showModelEvaluation := False\<rparr>"] None
  show ?thesis by auto
next
  case (Some ms)
  let ?c = "(currentConversation st)\<lparr>model_selection :=
      Some \<lparr>models = pick_models ms, mode = mode_used_or_mode ms, rationales = pick_rationales ms\<rparr>\<rparr>"
  let ?st1 = "st\<lparr>currentConversation := ?c, requests := requests st @ [(SaveSelection, ?c)],
                 showModelEvaluation := False\<rparr>"
  from Some have "handleProceedFromModelEvaluation parse fetched (Inr st) =
      proceedToCouncil parse fetched (Inr ?st1)"
    by (simp add: handleProceedFromModelEvaluation_def setState_def setCurrentConversation_def
        store_selection_def request_def)
  with proceedToCouncil_frame [of parse fetched ?st1] Some
  show ?thesis by auto
qed

lemma handleConfirmBriefing_selection:
  "\<exists>st'. handleConfirmBriefing now parse picked fetched (Inr st) = Inr st' \<and>
     model_selection (currentConversation st') = model_selection (currentConversation st) \<and>
     (\<forall>dp result. dynamicPicking st = Some dp \<and> picking_mode dp \<noteq> [] \<and> picked = Inr result \<longrightarrow>
        modelSelection st' = Some result)"
proof -
  from confirm_briefing_confirms [of now "currentConversation st"] obtain c0 where
    c0: "confirm_briefing now (currentConversation st) = Inr c0"
      "model_selection c0 = model_selection (currentConversation st)"
    by blast
  let ?st0 = "st\<lparr>currentConversation := c0\<rparr>"
  have first: "setCurrentConversation (confirm_briefing now) (Inr st) = Inr ?st0"
    using c0 by (simp add: setCurrentConversation_def)
  show ?thesis
  proof (cases "\<exists>dp. dynamicPicking st = Some dp \<and> picking_mode dp \<noteq> []")
    case False
    then have "handleConfirmBriefing now parse picked fetched (Inr st) =
        proceedToCouncil parse fetched (Inr ?st0)"
      using first by (auto simp: handleConfirmBriefing_def split: option.splits)
    with proceedToCouncil_frame [of parse fetched ?st0] c0 False show ?thesis
      by auto
  next
    case True
    then obtain dp where dp: "dynamicPicking st = Some dp" "picking_mode dp \<noteq> []"
      by blast
    let ?st1 = "?st0\<lparr>modelEvaluationLoading := True,
                      requests := requests st @ [(PickModels, c0)]\<rparr>"
    have asked: "request PickModels (Inr (?st0\<lparr>modelEvaluationLoading := True\<rparr>)) = Inr ?st1"
      by (simp add: request_def setState_def)
    show ?thesis
    proof (cases picked)
      case (Inr result)
      with dp first asked c0 show ?thesis
        by (simp add: handleConfirmBriefing_def Let_def setState_def)
    next
      case (Inl e)
      let ?st2 = "?st1\<lparr>modelEvaluationLoading := False\<rparr>"
      from Inl dp first asked have "handleConfirmBriefing now parse picked fetched (Inr st) =
          proceedToCouncil parse fetched (Inr ?st2)"
        by (simp add: handleConfirmBriefing_def Let_def setState_def)
      with proceedToCouncil_frame [of parse fetched ?st2] c0 Inl show ?thesis
        by auto
    qed
  qed
qed

lemma handleCancel_selection:
  "\<exists>st'. handleCancelModelEvaluation (Inr st) = Inr st' \<and>
     model_selection (currentConversation st') = model_selection (currentConversation st) \<and>
     modelSelection st' = None \<and> messages (currentConversation st') = [] \<and>
     clarification_state (currentConversation st') = None"
  by (simp add: handleCancelModelEvaluation_def setState_def setCurrentConversation_def restart_def)

text \<open>
  C8 (as stated, refuted): nothing checks the evaluation result. \<open>stray_result\<close> has a
  rationale for a model outside its \<^verbatim>\<open>models\<close>; proceeding stores it in the document
  as it is.
\<close>

theorem selection_keys_counterexample:
  "selection_of (Inr evaluation_app) = Inr None \<and>
   selection_of (handleProceedFromModelEvaluation JSON_parse Rejected (Inr evaluation_app)) =
     Inr (Some \<lparr>models = [''openai/gpt-4o''], mode = Some ''cheapest'',
                 rationales = [(''openai/gpt-4o'', ''Lowest cost''),
                               (''anthropic/claude-3'', ''Second choice'')]\<rparr>) \<and>
   \<not> keys_in_models \<lparr>models = [''openai/gpt-4o''], mode = Some ''cheapest'',
                 rationales = [(''openai/gpt-4o'', ''Lowest cost''),
                               (''anthropic/claude-3'', ''Second choice'')]\<rparr>"
  by (simp add: selection_of_def evaluation_app_def idle_app_def briefing_doc_def stray_result_def
      handleProceedFromModelEvaluation_def setState_def setCurrentConversation_def
      store_selection_def request_def mode_used_or_mode_def proceedToCouncil_def Let_def
      setClarificationLoading_def append_message_def confirmClarificationBriefing_def stream_def
      keys_in_models_def)

text \<open>
  C8 (amended): the model-selection transitions store the evaluation result as received.
  Receiving a result keeps it beside the document and leaves the document's selection as
  it was; so does cancelling, which drops the result. Proceeding writes the models and
  rationales of the result into the document unchanged, so that afterwards the keys of
  \<^verbatim>\<open>rationales\<close> are among \<^verbatim>\<open>models\<close> exactly when they are in the result.
\<close>

theorem selection_copied:
  "(\<exists>st'. handleConfirmBriefing now parse picked fetched (Inr st) = Inr st' \<and>
      model_selection (currentConversation st') = model_selection (currentConversation st) \<and>
      (\<forall>dp result. dynamicPicking st = Some dp \<and> picking_mode dp \<noteq> [] \<and> picked = Inr result \<longrightarrow>
         modelSelection st' = Some result))
   \<and> (\<exists>st'. handleProceedFromModelEvaluation parse fetched (Inr st) = Inr st' \<and>
      model_selection (currentConversation st') =
        (case modelSelection st of
           None \<Rightarrow> model_selection (currentConversation st)
         | Some ms \<Rightarrow> Some \<lparr>models = pick_models ms, mode = mode_used_or_mode ms,
                            rationales = pick_rationales ms\<rparr>) \<and>
      (\<forall>ms. modelSelection st = Some ms \<longrightarrow>
         (\<exists>sel. model_selection (currentConversation st') = Some sel \<and>
                (keys_in_models sel \<longleftrightarrow> result_keys_in_models ms))))
   \<and> (\<exists>st'. handleCancelModelEvaluation (Inr st) = Inr st' \<and>
      model_selection (currentConversation st') = model_selection (currentConversation st) \<and>
      modelSelection st' = None)"
proof (intro conjI)
  show "\<exists>st'. handleConfirmBriefing now parse picked fetched (Inr st) = Inr st' \<and>
      model_selection (currentConversation st') = model_selection (currentConversation st) \<and>
      (\<forall>dp result. dynamicPicking st = Some dp \<and> picking_mode dp \<noteq> [] \<and> picked = Inr result \<longrightarrow>
         modelSelection st' = Some result)"
    by (rule handleConfirmBriefing_selection)
  from handleProceed_selection [of parse fetched st]
  show "\<exists>st'. handleProceedFromModelEvaluation parse fetched (Inr st) = Inr st' \<and>
      model_selection (currentConversation st') =
        (case modelSelection st of
           None \<Rightarrow> model_selection (currentConversation st)
         | Some ms \<Rightarrow> Some \<lparr>models = pick_models ms, mode = mode_used_or_mode ms,
                            rationales = pick_rationales ms\<rparr>) \<and>
      (\<forall>ms. modelSelection st = Some ms \<longrightarrow>
         (\<exists>sel. model_selection (currentConversation st') = Some sel \<and>
                (keys_in_models sel \<longleftrightarrow> result_keys_in_models ms)))"
    by (auto simp: keys_in_models_def result_keys_in_models_def)
  from handleCancel_selection [of st]
  show "\<exists>st'. handleCancelModelEvaluation (Inr st) = Inr st' \<and>
      model_selection (currentConversation st') = model_selection (currentConversation st) \<and>
      modelSelection st' = None"
    by blast
qed

theorem selection_copied_witness:
  "modelSelection sound_app = Some sound_result \<and> result_keys_in_models sound_result \<and>
   (\<exists>st' sel. handleProceedFromModelEvaluation JSON_parse council_body (Inr sound_app) = Inr st' \<and>
      model_selection (currentConversation st') = Some sel \<and> keys_in_models sel \<and>
      models sel = [''openai/gpt-4o'', ''anthropic/claude-3''] \<and>
      mode sel = Some ''cheapest'' \<and> rationales sel = [(''openai/gpt-4o'', ''Lowest cost'')])"
proof -
  have held: "modelSelection sound_app = Some sound_result"
    by (simp add: sound_app_def)
  have sound: "result_keys_in_models sound_result"
    by (simp add: result_keys_in_models_def sound_result_def)
  from selection_copied [of "''now''" JSON_parse "Inl NetworkError" council_body sound_app]
  obtain st' where run: "handleProceedFromModelEvaluation JSON_parse council_body (Inr sound_app) = Inr st'"
    and sel: "model_selection (currentConversation st') =
        (case modelSelection sound_app of
           None \<Rightarrow> model_selection (currentConversation sound_app)
         | Some ms \<Rightarrow> Some \<lparr>models = pick_models ms, mode = mode_used_or_mode ms,
                            rationales = pick_rationales ms\<rparr>)"
    by blast
  from sel held have "model_selection (currentConversation st') =
      Some \<lparr>models = [''openai/gpt-4o'', ''anthropic/claude-3''], mode = Some ''cheapest'',
            rationales = [(''openai/gpt-4o'', ''Lowest cost'')]\<rparr>"
    by (simp add: sound_result_def mode_used_or_mode_def)
  with run held sound show ?thesis
    by (simp add: keys_in_models_def)
qed

section \<open>Properties of the confirmation\<close>

lemma is_confirmed_cong:
  "clarification_state c' = clarification_state c \<Longrightarrow> is_confirmed c' = is_confirmed c"
  by (simp add: is_confirmed_def)

lemma update_last_keeps:
  "update_last f c = Inr c' \<Longrightarrow> clarification_state c' = clarification_state c"
  by (auto simp: update_last_def split: list.splits message.splits option.splits)

lemma stage_keeps:
  "stage1_start c = Inr c' \<Longrightarrow> clarification_state c' = clarification_state c"
  "stage2_start c = Inr c' \<Longrightarrow> clarification_state c' = clarification_state c"
  "stage3_start c = Inr c' \<Longrightarrow> clarification_state c' = clarification_state c"
  "stage1_complete e c = Inr c' \<Longrightarrow> clarification_state c' = clarification_state c"
  "stage2_complete e c = Inr c' \<Longrightarrow> clarification_state c' = clarification_state c"
  "stage3_complete e c = Inr c' \<Longrightarrow> clarification_state c' = clarification_state c"
  "title_complete e c = Inr c' \<Longrightarrow> clarification_state c' = clarification_state c"
  by (auto simp: stage1_start_def stage2_start_def stage3_start_def stage1_complete_def
      stage2_complete_def stage3_complete_def title_complete_def
      dest: update_last_keeps split: sum.splits)

lemma setCurrentConversation_keeps:
  assumes "\<And>c c'. upd c = Inr c' \<Longrightarrow> clarification_state c' = clarification_state c"
    and "setCurrentConversation upd (Inr st) = Inr st'"
  shows "clarification_state (currentConversation st') = clarification_state (currentConversation st)"
  using assms by (auto simp: setCurrentConversation_def split: sum.splits)

lemma send_onEvent_cases:
  assumes "t \<noteq> JStr ''clarification_question''" and "send_onEvent t e (Inr st) = Inr st'"
  shows "currentConversation st' = currentConversation st
       \<or> setCurrentConversation stage1_start (Inr st) = Inr st'
       \<or> setCurrentConversation stage2_start (Inr st) = Inr st'
       \<or> setCurrentConversation stage3_start (Inr st) = Inr st'
       \<or> setCurrentConversation (stage1_complete e) (Inr st) = Inr st'
       \<or> setCurrentConversation (stage2_complete e) (Inr st) = Inr st'
       \<or> setCurrentConversation (stage3_complete e) (Inr st) = Inr st'
       \<or> setCurrentConversation (title_complete e) (Inr st) = Inr st'"
  using assms unfolding send_onEvent_def setIsLoading_def loadConversations_def setState_def
  by (simp split: if_splits sum.splits) auto

lemma send_onEvent_keeps:
  assumes "t \<noteq> JStr ''clarification_question''" and "send_onEvent t e (Inr st) = Inr st'"
  shows "clarification_state (currentConversation st') = clarification_state (currentConversation st)"
  using send_onEvent_cases [OF assms]
  by (elim disjE) (simp, (erule setCurrentConversation_keeps [rotated], erule stage_keeps)+)


lemma send_onEvent_Inl: "send_onEvent t e (Inl x) = Inl x"
  by (simp add: send_onEvent_def setCurrentConversation_def setIsLoading_def loadConversations_def
      setState_def split: sum.splits)

lemma deliver_send_Inl: "deliver send_onEvent evs (Inl x) = Inl x"
  by (induction evs) (auto simp: deliver_Nil deliver_Cons send_onEvent_Inl)

lemma deliver_send_keeps:
  assumes "JStr ''clarification_question'' \<notin> fst ` set evs"
    and "deliver send_onEvent evs (Inr st) = Inr st'"
  shows "clarification_state (currentConversation st') = clarification_state (currentConversation st)"
  using assms
proof (induction evs arbitrary: st)
  case Nil
  then show ?case by (simp add: deliver_Nil)
next
  case (Cons ev evs)
  obtain t e where ev: "ev = (t, e)" by (cases ev)
  with Cons.prems have t: "t \<noteq> JStr ''clarification_question''"
    and rest: "JStr ''clarification_question'' \<notin> fst ` set evs"
    and run: "deliver send_onEvent evs (send_onEvent t e (Inr st)) = Inr st'"
    by (auto simp: deliver_Cons)
  show ?case
  proof (cases "send_onEvent t e (Inr st)")
    case (Inl x)
    with run show ?thesis by (simp add: deliver_send_Inl)
  next
    case (Inr st1)
    from send_onEvent_keeps [OF t Inr] Cons.IH [OF rest, of st1] run Inr show ?thesis
      by simp
  qed
qed

lemma handleSendMessage_keeps:
  assumes "JStr ''clarification_question'' \<notin> fst ` set (body_events parse fetched)"
    and "handleSendMessage parse content fetched (Inr st) = Inr st'"
  shows "clarification_state (currentConversation st') = clarification_state (currentConversation st)"
proof (cases "currentConversationId st = None \<or> currentConversationId st = Some []")
  case True
  with assms(2) show ?thesis
    by (auto simp: handleSendMessage_def)
next
  case False
  from optimistic_messages [of content st] obtain st1 where
    opt: "optimistic content st = Inr st1" and
    cs1: "clarification_state (currentConversation st1) = clarification_state (currentConversation st)"
    by blast
  let ?st2 = "st1\<lparr>requests := requests st1 @ [(SendStream, currentConversation st1)]\<rparr>"
  have req: "request SendStream (Inr st1) = Inr ?st2"
    by (simp add: request_def setState_def)
  from stream_body_events [of "''Failed to send message''" parse fetched send_onEvent "Inr ?st2"]
  obtain outcome where run: "sendMessageStream parse fetched send_onEvent (Inr ?st2) =
      (outcome, deliver send_onEvent (body_events parse fetched) (Inr ?st2))"
    by (auto simp: sendMessageStream_def)
  show ?thesis
  proof (cases "deliver send_onEvent (body_events parse fetched) (Inr ?st2)")
    case (Inl x)
    with assms(2) False opt req run show ?thesis
      by (cases outcome)
         (auto simp: handleSendMessage_def setIsLoading_def setState_def setCurrentConversation_def)
  next
    case (Inr st3)
    from deliver_send_keeps [OF assms(1) Inr] cs1
    have cs3: "clarification_state (currentConversation st3) = clarification_state (currentConversation st)"
      by simp
    with assms(2) False opt req run Inr show ?thesis
      by (cases outcome)
         (auto simp: handleSendMessage_def setIsLoading_def setState_def setCurrentConversation_def
            rollback_def)
  qed
qed


lemma answer_keeps:
  assumes "is_confirmed c"
  shows "\<exists>c'. answer_briefing answer result c = Inr c' \<and> is_confirmed c'"
    and "\<exists>c'. answer_question answer result c = Inr c' \<and> is_confirmed c'"
  using assms
  by (auto simp: answer_briefing_def answer_question_def is_confirmed_def spread_clarification_def
      split: option.splits)

lemma setCurrentConversation_Inr:
  "upd (currentConversation st) = Inr c' \<Longrightarrow>
   setCurrentConversation upd (Inr st) = Inr (st\<lparr>currentConversation := c'\<rparr>)"
  by (simp add: setCurrentConversation_def)

lemma handleSubmit_keeps:
  assumes "is_confirmed (currentConversation st)"
  shows "\<exists>st'. handleSubmitClarificationAnswer answer response (Inr st) = Inr st' \<and>
           is_confirmed (currentConversation st')"
proof -
  let ?st1 = "st\<lparr>clarificationLoading := True\<rparr>"
  have conf1: "is_confirmed (currentConversation ?st1)"
    using assms by simp
  have r1: "setClarificationLoading True (Inr st) = Inr ?st1"
    by (simp add: setClarificationLoading_def setState_def)
  have fin: "\<exists>st'. setClarificationLoading False (Inr s) = Inr st' \<and>
      is_confirmed (currentConversation st')" if "is_confirmed (currentConversation s)" for s
    using that by (simp add: setClarificationLoading_def setState_def)
  show ?thesis
  proof (cases response)
    case (Inl e)
    with r1 fin [OF conf1] show ?thesis
      by (simp add: handleSubmitClarificationAnswer_def Let_def)
  next
    case (Inr result)
    show ?thesis
    proof (cases "js_get result ''type''")
      case (Inl e)
      with Inr r1 fin [OF conf1] show ?thesis
        by (simp add: handleSubmitClarificationAnswer_def Let_def)
    next
      case t: (Inr t)
      from answer_keeps [OF conf1, of answer result] obtain cb cq where
        cb: "answer_briefing answer result (currentConversation ?st1) = Inr cb" "is_confirmed cb" and
        cq: "answer_question answer result (currentConversation ?st1) = Inr cq" "is_confirmed cq"
        by blast
      have b: "is_confirmed (currentConversation (?st1\<lparr>currentConversation := cb\<rparr>))"
        using cb by simp
      have q: "is_confirmed (currentConversation (?st1\<lparr>currentConversation := cq\<rparr>))"
        using cq by simp
      from Inr t r1
        setCurrentConversation_Inr [of "answer_briefing answer result" ?st1 cb, OF cb(1)]
        setCurrentConversation_Inr [of "answer_question answer result" ?st1 cq, OF cq(1)]
        fin [OF b] fin [OF q]
      show ?thesis
        by (simp add: handleSubmitClarificationAnswer_def Let_def)
    qed
  qed
qed


lemma confirmed_inactive_is_confirmed: "confirmed_inactive c \<Longrightarrow> is_confirmed c"
  by (simp add: confirmed_inactive_def is_confirmed_def split: option.splits)

lemma perform_keeps:
  assumes "is_confirmed (currentConversation st)" and "keeps_confirmed parse op"
    and "perform parse op (Inr st) = Inr st'"
  shows "is_confirmed (currentConversation st')"
proof (cases op)
  case (SendMessage content fetched)
  with assms(2) have quiet: "JStr ''clarification_question'' \<notin> fst ` set (body_events parse fetched)"
    by simp
  from SendMessage assms(3) have "handleSendMessage parse content fetched (Inr st) = Inr st'"
    by simp
  from handleSendMessage_keeps [OF quiet this] assms(1) show ?thesis
    by (simp add: is_confirmed_def)
next
  case (SubmitAnswer answer response)
  from handleSubmit_keeps [OF assms(1), of answer response] obtain st2 where
    "handleSubmitClarificationAnswer answer response (Inr st) = Inr st2"
    "is_confirmed (currentConversation st2)"
    by blast
  with SubmitAnswer assms(3) show ?thesis by simp
next
  case (ConfirmBriefing now picked fetched)
  from handleConfirmBriefing_confirmed [of now parse picked fetched st] obtain st2 where
    "handleConfirmBriefing now parse picked fetched (Inr st) = Inr st2"
    "confirmed_inactive (currentConversation st2)"
    by blast
  with ConfirmBriefing assms(3) show ?thesis
    by (simp add: confirmed_inactive_is_confirmed)
next
  case (ProceedFromModelEvaluation fetched)
  from handleProceed_selection [of parse fetched st] obtain st2 where
    "handleProceedFromModelEvaluation parse fetched (Inr st) = Inr st2"
    "clarification_state (currentConversation st2) = clarification_state (currentConversation st)"
    by blast
  with ProceedFromModelEvaluation assms(1,3) show ?thesis
    by (simp add: is_confirmed_def)
next
  case CancelModelEvaluation
  with assms(2) show ?thesis by simp
next
  case (LoadConversation response)
  with assms show ?thesis
    by (cases response) (auto simp: loadConversation_def setCurrentConversation_def)
qed

lemma setState_Inl: "setState f (Inl x) = Inl x"
  by (simp add: setState_def)

lemma setCurrentConversation_Inl: "setCurrentConversation upd (Inl x) = Inl x"
  by (simp add: setCurrentConversation_def)

lemma perform_Inl: "perform parse op (Inl x) = Inl x"
proof (cases op)
  case (SendMessage content fetched)
  then show ?thesis by (simp add: handleSendMessage_def)
next
  case (SubmitAnswer answer response)
  then show ?thesis
    by (simp add: handleSubmitClarificationAnswer_def Let_def setClarificationLoading_def
        setState_Inl setCurrentConversation_Inl split: sum.splits)
next
  case (ConfirmBriefing now picked fetched)
  then show ?thesis
    by (simp add: handleConfirmBriefing_def setCurrentConversation_Inl)
next
  case (ProceedFromModelEvaluation fetched)
  then show ?thesis
    by (simp add: handleProceedFromModelEvaluation_def)
next
  case CancelModelEvaluation
  then show ?thesis
    by (simp add: handleCancelModelEvaluation_def setState_Inl setCurrentConversation_Inl)
next
  case (LoadConversation response)
  then show ?thesis
    by (cases response) (simp_all add: loadConversation_def setCurrentConversation_Inl)
qed

lemma perform_all_Inl: "perform_all parse ops (Inl x) = Inl x"
  by (induction ops) (simp_all add: perform_all_def perform_Inl)

text \<open>
  C6 (as stated, refuted): cancelling the model evaluation sets
  \<^verbatim>\<open>clarification_state\<close> to \<^verbatim>\<open>null\<close>, and a \<^verbatim>\<open>clarification_question\<close> event in
  the send stream replaces it by a fresh state; either way a confirmed document is no
  longer confirmed.
\<close>

theorem confirmed_monotonic_counterexample:
  "is_confirmed answered_doc \<and>
   handleCancelModelEvaluation (Inr (idle_app answered_doc)) =
     Inr ((idle_app answered_doc)
            \<lparr>currentConversation := answered_doc\<lparr>messages := [], clarification_state := None\<rparr>\<rparr>) \<and>
   \<not> is_confirmed (answered_doc\<lparr>messages := [], clarification_state := None\<rparr>) \<and>
   send_onEvent (JStr ''clarification_question'') question_event (Inr (idle_app answered_doc)) =
     Inr ((idle_app answered_doc)
            \<lparr>currentConversation := answered_doc
               \<lparr>clarification_state :=
                  Some \<lparr>active = Some True, history = Some [], current_question = budget_question,
                        briefing = JUndefined, confirmed = None, confirmed_at = JUndefined\<rparr>\<rparr>\<rparr>) \<and>
   \<not> is_confirmed (answered_doc
               \<lparr>clarification_state :=
                  Some \<lparr>active = Some True, history = Some [], current_question = budget_question,
                        briefing = JUndefined, confirmed = None, confirmed_at = JUndefined\<rparr>\<rparr>)"
  by (simp add: is_confirmed_def answered_doc_def answered_def idle_app_def
      handleCancelModelEvaluation_def setState_def setCurrentConversation_def restart_def
      send_onEvent_def setIsLoading_def clarification_question_def question_event_def
      pop_placeholder_def is_empty_placeholder_def)

text \<open>
  C6 (amended): once \<^verbatim>\<open>confirmed\<close> is true it stays true through every sequence of
  sends, answer submissions, briefing confirmations and model-selection proceeds, with
  all the stream events they bring, and of reloads that bring a confirmed copy, as long
  as no send stream carries a \<^verbatim>\<open>clarification_question\<close> event and the model
  evaluation is not cancelled.
\<close>

theorem confirmed_kept:
  assumes "is_confirmed (currentConversation st)"
    and "\<forall>op \<in> set ops. keeps_confirmed parse op"
    and "perform_all parse ops (Inr st) = Inr st'"
  shows "is_confirmed (currentConversation st')"
  using assms
proof (induction ops arbitrary: st)
  case Nil
  then show ?case by (simp add: perform_all_def)
next
  case (Cons op ops)
  show ?case
  proof (cases "perform parse op (Inr st)")
    case (Inl x)
    with Cons.prems(3) show ?thesis
      using perform_all_Inl [of parse ops x] by (simp add: perform_all_def)
  next
    case (Inr st1)
    from Cons.prems(1,2) Inr have "is_confirmed (currentConversation st1)"
      by (auto intro: perform_keeps)
    moreover from Cons.prems(3) Inr have "perform_all parse ops (Inr st1) = Inr st'"
      by (simp add: perform_all_def)
    ultimately show ?thesis
      using Cons.IH Cons.prems(2) by simp
  qed
qed

lemma later_operations_keep: "\<forall>op \<in> set later_operations. keeps_confirmed JSON_parse op"
  by (simp add: later_operations_def body_events_def is_confirmed_def answered_doc_def
      answered_def)

lemma confirmed_app_confirmed: "is_confirmed (currentConversation confirmed_app)"
  by (simp add: confirmed_app_def idle_app_def answered_doc_def answered_def is_confirmed_def)

lemma later_operations_run: "\<exists>st'. perform_all JSON_parse later_operations (Inr confirmed_app) = Inr st'"
proof -
  have "\<exists>st1. perform JSON_parse (SendMessage ''And v3?'' Rejected) (Inr confirmed_app) = Inr st1"
    by (simp add: handleSendMessage_def confirmed_app_def idle_app_def answered_doc_def
        sendMessageStream_def stream_def optimistic_def Let_def setIsLoading_def setState_def
        setCurrentConversation_def append_message_def request_def rollback_def)
  then obtain st1 where 1: "perform JSON_parse (SendMessage ''And v3?'' Rejected) (Inr confirmed_app) = Inr st1"
    by blast
  have keep1: "keeps_confirmed JSON_parse (SendMessage ''And v3?'' Rejected)"
    by (simp add: body_events_def)
  from perform_keeps [OF confirmed_app_confirmed keep1 1]
  have c1: "is_confirmed (currentConversation st1)" .
  from handleSubmit_keeps [OF c1, of "''By Q3''" "Inr next_question"] obtain st2 where
    2: "handleSubmitClarificationAnswer ''By Q3'' (Inr next_question) (Inr st1) = Inr st2"
    by blast
  from handleConfirmBriefing_confirmed [of "''2026-02-01T00:00:00.000Z''" JSON_parse
      "Inl NetworkError" council_body st2]
  obtain st3 where 3: "handleConfirmBriefing ''2026-02-01T00:00:00.000Z'' JSON_parse
      (Inl NetworkError) council_body (Inr st2) = Inr st3"
    by blast
  from 1 2 3 show ?thesis
    by (simp add: perform_all_def later_operations_def loadConversation_def
        setCurrentConversation_def)
qed

theorem confirmed_kept_witness:
  "is_confirmed (currentConversation confirmed_app) \<and>
   list_all (keeps_confirmed JSON_parse) later_operations \<and>
   (\<exists>st'. perform_all JSON_parse later_operations (Inr confirmed_app) = Inr st' \<and>
          is_confirmed (currentConversation st'))"
proof -
  from later_operations_run obtain st' where
    run: "perform_all JSON_parse later_operations (Inr confirmed_app) = Inr st'"
    by blast
  from confirmed_kept [OF confirmed_app_confirmed later_operations_keep run]
  have "is_confirmed (currentConversation st')" .
  with run confirmed_app_confirmed later_operations_keep show ?thesis
    by (auto simp: list_all_iff)
qed

end
